theory Spec2Isabelle
  imports Complex_Main "HOL-Library.Multiset" "HOL-Library.Sublist"
begin

section \<open>Characters and strings of the source language\<close>

text \<open>
  The scripts work on Python \<open>str\<close> values. A character is modelled by a \<^typ>\<open>char\<close>,
  read as the code point below 256 with the same number, and a string by a list of them,
  so that the length of a list is the number of code points. The character classes below are
  the ones Python uses on this range: \<open>str.isspace\<close> (also the class \<open>\s\<close> of the
  \<open>re\<close> module on \<open>str\<close> patterns), the decimal digits of \<open>\d\<close>, the class
  \<open>[A-Za-z]\<close>, the word characters of \<open>\w\<close> (alphanumerics and the underscore) that
  decide \<open>\b\<close>, and the case mappings \<open>str.lower\<close> and \<open>str.upper\<close>.
\<close>

definition py_isspace :: "char \<Rightarrow> bool" where
  "py_isspace c =
     (let n = (of_char c :: nat)
      in (9 \<le> n \<and> n \<le> 13) \<or> (28 \<le> n \<and> n \<le> 32) \<or> n = 133 \<or> n = 160)"

definition re_digit :: "char \<Rightarrow> bool" where
  "re_digit c = (let n = (of_char c :: nat) in 48 \<le> n \<and> n \<le> 57)"

definition ascii_letter :: "char \<Rightarrow> bool" where
  "ascii_letter c =
     (let n = (of_char c :: nat) in (65 \<le> n \<and> n \<le> 90) \<or> (97 \<le> n \<and> n \<le> 122))"

definition re_word :: "char \<Rightarrow> bool" where
  "re_word c =
     (let n = (of_char c :: nat)
      in (48 \<le> n \<and> n \<le> 57) \<or> (65 \<le> n \<and> n \<le> 90) \<or> n = 95 \<or> (97 \<le> n \<and> n \<le> 122)
         \<or> n = 170 \<or> n = 178 \<or> n = 179 \<or> n = 181 \<or> n = 185 \<or> n = 186
         \<or> (188 \<le> n \<and> n \<le> 190) \<or> (192 \<le> n \<and> n \<le> 214) \<or> (216 \<le> n \<and> n \<le> 246)
         \<or> 248 \<le> n)"

definition lower_char :: "char \<Rightarrow> char" where
  "lower_char c =
     (let n = (of_char c :: nat)
      in if (65 \<le> n \<and> n \<le> 90) \<or> (192 \<le> n \<and> n \<le> 214) \<or> (216 \<le> n \<and> n \<le> 222)
         then char_of (n + 32) else c)"

text \<open>
  \<open>str.upper\<close> is only ever applied to the two letters captured by \<open>[A-Za-z]{2}\<close>; on
  other characters of the range it can change the length or leave the range, and
  \<open>upper_char\<close> leaves them alone.
\<close>

definition upper_char :: "char \<Rightarrow> char" where
  "upper_char c =
     (let n = (of_char c :: nat) in if 97 \<le> n \<and> n \<le> 122 then char_of (n - 32) else c)"

definition py_lower :: "string \<Rightarrow> string" where
  "py_lower s = map lower_char s"

definition py_upper :: "string \<Rightarrow> string" where
  "py_upper s = map upper_char s"

definition py_strip :: "string \<Rightarrow> string" where
  "py_strip s = rev (dropWhile py_isspace (rev (dropWhile py_isspace s)))"

section \<open>Regular-expression pieces\<close>

text \<open>
  The patterns of the source are built from a few pieces. Each piece is a matcher in
  continuation style: it consumes a prefix of the remaining subject and hands the rest to
  the continuation \<open>k\<close>; a greedy piece first tries to consume more and falls back to
  less when the continuation fails, which is the backtracking order of \<open>re\<close>.
\<close>

fun star_ws :: "(string \<Rightarrow> 'a option) \<Rightarrow> string \<Rightarrow> 'a option" where
  "star_ws k [] = k []"
| "star_ws k (c # cs) =
     (if py_isspace c
      then (case star_ws k cs of Some r \<Rightarrow> Some r | None \<Rightarrow> k (c # cs))
      else k (c # cs))"

definition plus_ws :: "(string \<Rightarrow> 'a option) \<Rightarrow> string \<Rightarrow> 'a option" where
  "plus_ws k r = (case r of [] \<Rightarrow> None | c # cs \<Rightarrow> if py_isspace c then star_ws k cs else None)"

definition opt_comma :: "(string \<Rightarrow> 'a option) \<Rightarrow> string \<Rightarrow> 'a option" where
  "opt_comma k r =
     (case r of
        c # cs \<Rightarrow>
          if c = CHR '','' then (case k cs of Some x \<Rightarrow> Some x | None \<Rightarrow> k r) else k r
      | [] \<Rightarrow> k r)"

definition comma :: "(string \<Rightarrow> 'a option) \<Rightarrow> string \<Rightarrow> 'a option" where
  "comma k r = (case r of [] \<Rightarrow> None | c # cs \<Rightarrow> if c = CHR '','' then k cs else None)"

definition two_letters :: "(string \<Rightarrow> string \<Rightarrow> 'a option) \<Rightarrow> string \<Rightarrow> 'a option" where
  "two_letters k r =
     (case r of
        a # b # cs \<Rightarrow> if ascii_letter a \<and> ascii_letter b then k [a, b] cs else None
      | _ \<Rightarrow> None)"

definition five_digits :: "(string \<Rightarrow> 'a option) \<Rightarrow> string \<Rightarrow> 'a option" where
  "five_digits k r =
     (if 5 \<le> length r \<and> list_all re_digit (take 5 r) then k (drop 5 r) else None)"

text \<open>
  \<open>$\<close> without the MULTILINE flag matches at the end of the subject and just before a
  newline that ends the subject.
\<close>

definition at_dollar :: "string \<Rightarrow> bool" where
  "at_dollar r = (r = [] \<or> r = [CHR 0x0A])"

definition lit_dollar :: "string \<Rightarrow> string \<Rightarrow> string option" where
  "lit_dollar lit r =
     (if take (length lit) r = lit \<and> at_dollar (drop (length lit) r)
      then Some (drop (length lit) r) else None)"

text \<open>
  \<open>re.search\<close> tries the pattern at every position from the left and returns the first
  match; the matcher also sees the character before the position, which \<open>\b\<close> needs.
\<close>

fun re_search :: "(char option \<Rightarrow> string \<Rightarrow> 'a option) \<Rightarrow> char option \<Rightarrow> string \<Rightarrow> 'a option" where
  "re_search m prev [] = m prev []"
| "re_search m prev (c # cs) =
     (case m prev (c # cs) of Some g \<Rightarrow> Some g | None \<Rightarrow> re_search m (Some c) cs)"

section \<open>Address normalisation\<close>

text \<open>
  \<open>re.sub(r'\s+', ' ', s)\<close>: every maximal run of whitespace becomes one space.
\<close>

function collapse_ws :: "string \<Rightarrow> string" where
  "collapse_ws [] = []"
| "collapse_ws (c # cs) =
     (if py_isspace c then CHR '' '' # collapse_ws (dropWhile py_isspace cs)
      else c # collapse_ws cs)"
  by pat_completeness auto
termination
  by (relation "measure length") (auto simp: length_dropWhile_le less_Suc_eq_le)

text \<open>
  \<open>re.sub(r',?\s*LIT$', '', s)\<close> for a non-empty literal \<open>LIT\<close>: the pattern
  \<open>,?\s*LIT$\<close> at the start of \<open>r\<close>, giving what is left of the subject after the match,
  and the substitution, which deletes the leftmost match. What is left after a match is
  empty or one final newline, where the pattern cannot match again.
\<close>

definition suffix_pattern :: "string \<Rightarrow> string \<Rightarrow> string option" where
  "suffix_pattern lit r = opt_comma (star_ws (lit_dollar lit)) r"

fun sub_suffix :: "string \<Rightarrow> string \<Rightarrow> string" where
  "sub_suffix lit [] = []"
| "sub_suffix lit (c # cs) =
     (case suffix_pattern lit (c # cs) of
        Some rest \<Rightarrow> rest
      | None \<Rightarrow> c # sub_suffix lit cs)"

text \<open>
  \<open>normalize_address\<close>. The argument is \<open>None\<close> for a null cell (\<open>pd.isna\<close>) and
  \<open>Some s\<close> for a string.
\<close>

definition normalize_address :: "string option \<Rightarrow> string" where
  "normalize_address addr =
     (case addr of
        None \<Rightarrow> []
      | Some a \<Rightarrow>
          (let a1 = py_strip (py_lower a);
               a2 = collapse_ws a1;
               a3 = sub_suffix ''united states of america'' a2;
               a4 = sub_suffix ''usa'' a3
           in py_strip a4))"

section \<open>State extraction\<close>

text \<open>
  The three patterns of \<open>extract_state_from_address\<close>, each giving the text of its
  group 1:
  \<^item> \<open>,\s*([A-Za-z]{2})\s+\d{5}\<close>
  \<^item> \<open>,\s*([A-Za-z]{2})\s*,\<close>
  \<^item> \<open>\b([A-Za-z]{2})\s+\d{5}\<close>
\<close>

definition pattern_comma_zip :: "char option \<Rightarrow> string \<Rightarrow> string option" where
  "pattern_comma_zip prev r =
     comma (star_ws (two_letters (\<lambda>g. plus_ws (five_digits (\<lambda>_. Some g))))) r"

definition pattern_comma_comma :: "char option \<Rightarrow> string \<Rightarrow> string option" where
  "pattern_comma_comma prev r =
     comma (star_ws (two_letters (\<lambda>g. star_ws (comma (\<lambda>_. Some g))))) r"

text \<open>
  \<open>\b\<close> holds where exactly one of the characters before and after the position is a
  word character; outside the subject there is none.
\<close>

definition word_boundary :: "char option \<Rightarrow> string \<Rightarrow> bool" where
  "word_boundary prev r =
     ((case prev of None \<Rightarrow> False | Some p \<Rightarrow> re_word p)
      \<noteq> (case r of [] \<Rightarrow> False | c # _ \<Rightarrow> re_word c))"

definition pattern_word_zip :: "char option \<Rightarrow> string \<Rightarrow> string option" where
  "pattern_word_zip prev r =
     (if word_boundary prev r
      then two_letters (\<lambda>g. plus_ws (five_digits (\<lambda>_. Some g))) r
      else None)"

definition patterns :: "(char option \<Rightarrow> string \<Rightarrow> string option) list" where
  "patterns = [pattern_comma_zip, pattern_comma_comma, pattern_word_zip]"

definition us_states :: "string list" where
  "us_states =
     [''AL'', ''AK'', ''AZ'', ''AR'', ''CA'', ''CO'', ''CT'', ''DE'', ''FL'', ''GA'',
      ''HI'', ''ID'', ''IL'', ''IN'', ''IA'', ''KS'', ''KY'', ''LA'', ''ME'', ''MD'',
      ''MA'', ''MI'', ''MN'', ''MS'', ''MO'', ''MT'', ''NE'', ''NV'', ''NH'', ''NJ'',
      ''NM'', ''NY'', ''NC'', ''ND'', ''OH'', ''OK'', ''OR'', ''PA'', ''RI'', ''SC'',
      ''SD'', ''TN'', ''TX'', ''UT'', ''VT'', ''VA'', ''WA'', ''WV'', ''WI'', ''WY'',
      ''DC'', ''PR'', ''VI'', ''GU'', ''AS'', ''MP'']"

text \<open>
  The loop over the patterns: a pattern whose leftmost match has a group outside
  \<open>us_states\<close> is given up and the next pattern is tried.
\<close>

fun try_patterns :: "(char option \<Rightarrow> string \<Rightarrow> string option) list \<Rightarrow> string \<Rightarrow> string option" where
  "try_patterns [] addr = None"
| "try_patterns (pattern # rest) addr =
     (case re_search pattern None addr of
        Some g \<Rightarrow>
          (let state = py_upper g
           in if state \<in> set us_states then Some state else try_patterns rest addr)
      | None \<Rightarrow> try_patterns rest addr)"

text \<open>
  \<open>extract_state_from_address\<close>. \<open>not addr\<close> holds for \<open>None\<close> and for the empty
  string.
\<close>

definition extract_state_from_address :: "string option \<Rightarrow> string option" where
  "extract_state_from_address addr =
     (case addr of
        None \<Rightarrow> None
      | Some a \<Rightarrow> if a = [] then None else try_patterns patterns a)"

section \<open>Cells of a sheet\<close>

text \<open>
  A cell read from a sheet holds a string or a null, and pandas has two nulls: \<open>None\<close> and
  the float \<open>NaN\<close>, which is what a blank cell becomes. \<open>truthy\<close> is Python's truth
  value (a \<open>NaN\<close> is true) and \<open>pd_isna\<close> is \<open>pd.isna\<close>. The two functions above on
  any cell: \<open>extract_state_from_address\<close> tests \<open>not addr\<close> and then hands the value to
  \<open>re.search\<close>, which raises \<open>TypeError\<close> on anything but a string;
  \<open>normalize_address\<close> tests \<open>pd.isna(addr)\<close> first.
\<close>

datatype py_value = PyNone | PyNaN | PyStr string

datatype py_error = TypeError

definition truthy :: "py_value \<Rightarrow> bool" where
  "truthy v = (case v of PyNone \<Rightarrow> False | PyNaN \<Rightarrow> True | PyStr s \<Rightarrow> s \<noteq> [])"

definition pd_isna :: "py_value \<Rightarrow> bool" where
  "pd_isna v = (case v of PyNone \<Rightarrow> True | PyNaN \<Rightarrow> True | PyStr s \<Rightarrow> False)"

definition extract_state_from_address_cell :: "py_value \<Rightarrow> py_error + string option" where
  "extract_state_from_address_cell addr =
     (if \<not> truthy addr then Inr None
      else (case addr of
              PyStr a \<Rightarrow> Inr (extract_state_from_address (Some a))
            | _ \<Rightarrow> Inl TypeError))"

definition normalize_address_cell :: "py_value \<Rightarrow> py_error + string" where
  "normalize_address_cell addr =
     (if pd_isna addr then Inr []
      else (case addr of
              PyStr a \<Rightarrow> Inr (normalize_address (Some a))
            | _ \<Rightarrow> Inr (normalize_address None)))"

section \<open>Similarity scoring\<close>

text \<open>
  The string similarity comes from a library outside the repository, so it is a parameter of
  the model: \<open>RapidFuzz f\<close> when \<open>USE_RAPIDFUZZ\<close> holds, with \<open>f\<close> for
  \<open>fuzz.token_set_ratio\<close> (a percentage), and \<open>Difflib f\<close> otherwise, with \<open>f a b\<close>
  for \<open>SequenceMatcher(None, a, b).ratio()\<close>. Scores are Python floats; they are modelled
  by real numbers, on which comparisons are those of the floats and the weighted sum is exact.
\<close>

datatype scorer =
    RapidFuzz "string \<Rightarrow> string \<Rightarrow> real"
  | Difflib "string \<Rightarrow> string \<Rightarrow> real"

fun similarity :: "scorer \<Rightarrow> string \<Rightarrow> string \<Rightarrow> real" where
  "similarity (RapidFuzz token_set_ratio) a b = token_set_ratio a b / 100"
| "similarity (Difflib ratio) a b =
     ratio (normalize_address (Some a)) (normalize_address (Some b))"

definition combined_similarity_score :: "scorer \<Rightarrow> string \<Rightarrow> string \<Rightarrow> string \<Rightarrow> string \<Rightarrow> real" where
  "combined_similarity_score sc target_addr target_facility candidate_addr candidate_name =
     (if target_addr = [] \<or> candidate_addr = [] then 0
      else
        (let addr_score = similarity sc target_addr candidate_addr;
             facility_score =
               (if target_facility \<noteq> [] \<and> candidate_name \<noteq> []
                then similarity sc target_facility candidate_name else 0)
         in if facility_score > 0 then addr_score * 0.6 + facility_score * 0.4
            else addr_score))"

text \<open>
  A candidate is the triple \<open>(addr_str, name_str, data)\<close> of the source. The loop of
  \<open>find_best_match_combined\<close> carries \<open>(best_match, best_score)\<close>.
\<close>

type_synonym 'd candidate = "string \<times> string \<times> 'd"

fun best_match_loop ::
  "scorer \<Rightarrow> string \<Rightarrow> string \<Rightarrow> 'd candidate list \<Rightarrow> 'd option \<times> real \<Rightarrow> 'd option \<times> real" where
  "best_match_loop sc target_addr target_facility [] best = best"
| "best_match_loop sc target_addr target_facility ((addr_str, name_str, data) # rest)
       (best_match, best_score) =
     (let score = combined_similarity_score sc target_addr target_facility addr_str name_str
      in if score > best_score
         then best_match_loop sc target_addr target_facility rest (Some data, score)
         else best_match_loop sc target_addr target_facility rest (best_match, best_score))"

definition find_best_match_combined ::
  "scorer \<Rightarrow> string \<Rightarrow> string \<Rightarrow> 'd candidate list \<Rightarrow> 'd option \<times> real" where
  "find_best_match_combined sc target_addr target_facility candidates =
     best_match_loop sc target_addr target_facility candidates (None, 0)"

text \<open>
  The score that the loop computes for a candidate.
\<close>

definition candidate_score :: "scorer \<Rightarrow> string \<Rightarrow> string \<Rightarrow> 'd candidate \<Rightarrow> real" where
  "candidate_score sc target_addr target_facility c =
     combined_similarity_score sc target_addr target_facility (fst c) (fst (snd c))"

text \<open>
  A scorer given by a finite table of ratios and zero elsewhere, to instantiate the library
  parameter in closed examples.
\<close>

definition table_ratio :: "((string \<times> string) \<times> real) list \<Rightarrow> string \<Rightarrow> string \<Rightarrow> real" where
  "table_ratio tbl a b = (case map_of tbl (a, b) of Some v \<Rightarrow> v | None \<Rightarrow> 0)"

section \<open>Candidate indices\<close>

text \<open>
  The payload dictionaries built in \<open>main\<close> have fixed keys and are records here; an
  identifier or URL taken from a source row may be null (\<open>None\<close>). A payload is never an
  empty dictionary, so \<open>not hs_match\<close> holds exactly for \<open>None\<close>.
\<close>

record hubspot_data =
  data_hubspot_record_id :: "string option"
  data_hubspot_company_name :: string
  data_hubspot_full_address :: string
  data_hubspot_parent_company :: string

record clickup_data =
  data_clickup_task_id :: "string option"
  data_clickup_task_name :: string
  data_clickup_task_location :: string
  data_clickup_url :: "string option"

record corporations_data =
  data_corporations_task_id :: "string option"
  data_corporations_task_name :: string
  data_corporations_task_location :: string
  data_corporations_task_url :: "string option"

definition hubspot_candidate ::
  "string option \<Rightarrow> string \<Rightarrow> string \<Rightarrow> string \<Rightarrow> hubspot_data candidate" where
  "hubspot_candidate record_id company_name full_addr parent_company =
     (full_addr, company_name,
      \<lparr>data_hubspot_record_id = record_id, data_hubspot_company_name = company_name,
       data_hubspot_full_address = full_addr, data_hubspot_parent_company = parent_company\<rparr>)"

definition clickup_candidate ::
  "string option \<Rightarrow> string \<Rightarrow> string \<Rightarrow> string option \<Rightarrow> clickup_data candidate" where
  "clickup_candidate task_id task_name location url =
     (location, task_name,
      \<lparr>data_clickup_task_id = task_id, data_clickup_task_name = task_name,
       data_clickup_task_location = location, data_clickup_url = url\<rparr>)"

text \<open>
  The Corporations list is flat, keeps only tasks with a name, and uses the task name as both
  address and name of the candidate; its location field is the empty string.
\<close>

definition corporations_candidate ::
  "string option \<Rightarrow> string \<Rightarrow> string option \<Rightarrow> corporations_data candidate" where
  "corporations_candidate task_id task_name url =
     (task_name, task_name,
      \<lparr>data_corporations_task_id = task_id, data_corporations_task_name = task_name,
       data_corporations_task_location = [], data_corporations_task_url = url\<rparr>)"

definition corporations_index ::
  "(string option \<times> string \<times> string option) list \<Rightarrow> corporations_data candidate list" where
  "corporations_index rows =
     map (\<lambda>(task_id, task_name, url). corporations_candidate task_id task_name url)
       (filter (\<lambda>(task_id, task_name, url). task_name \<noteq> []) rows)"

text \<open>
  A state index is the \<open>defaultdict(list)\<close> of the source as an association list in
  insertion order of its keys: \<open>bucket_append\<close> is \<open>index[key].append(c)\<close>.
\<close>

type_synonym 'd state_index = "(string \<times> 'd candidate list) list"

definition NO_STATE :: string where
  "NO_STATE = ''__NO_STATE__''"

fun bucket_append :: "string \<Rightarrow> 'd candidate \<Rightarrow> 'd state_index \<Rightarrow> 'd state_index" where
  "bucket_append key c [] = [(key, [c])]"
| "bucket_append key c ((key', bucket) # rest) =
     (if key = key' then (key', bucket @ [c]) # rest
      else (key', bucket) # bucket_append key c rest)"

definition index_candidate :: "'d state_index \<Rightarrow> 'd candidate \<Rightarrow> 'd state_index" where
  "index_candidate idx c =
     (case c of (addr, name, data) \<Rightarrow>
        if addr \<noteq> [] then
          (case extract_state_from_address (Some addr) of
             Some state \<Rightarrow>
               if state \<noteq> [] then bucket_append state c idx else bucket_append NO_STATE c idx
           | None \<Rightarrow> bucket_append NO_STATE c idx)
        else idx)"

definition build_index :: "'d candidate list \<Rightarrow> 'd state_index" where
  "build_index rows = foldl index_candidate [] rows"

text \<open>
  The two indices that \<open>main\<close> builds: one candidate per source row, indexed when its
  address is not empty.
\<close>

definition hubspot_index ::
  "(string option \<times> string \<times> string \<times> string) list \<Rightarrow> hubspot_data state_index" where
  "hubspot_index rows =
     build_index
       (map (\<lambda>(record_id, company_name, full_addr, parent_company).
               hubspot_candidate record_id company_name full_addr parent_company) rows)"

definition clickup_index ::
  "(string option \<times> string \<times> string \<times> string option) list \<Rightarrow> clickup_data state_index" where
  "clickup_index rows =
     build_index
       (map (\<lambda>(task_id, task_name, location, url).
               clickup_candidate task_id task_name location url) rows)"

section \<open>Two-phase resolution\<close>

definition match_threshold :: real where
  "match_threshold = 0.5"

text \<open>
  Phase 1 of \<open>main\<close>: the bucket of the target's state, when the target has a state and
  the index has that key; otherwise \<open>(None, 0.0)\<close> stays.
\<close>

definition state_filtered_phase ::
  "scorer \<Rightarrow> 'd state_index \<Rightarrow> string option \<Rightarrow> string \<Rightarrow> string \<Rightarrow> 'd option \<times> real" where
  "state_filtered_phase sc by_state target_state unique_addr facility_name =
     (case target_state of
        None \<Rightarrow> (None, 0)
      | Some st \<Rightarrow>
          if st = [] then (None, 0)
          else (case map_of by_state st of
                  None \<Rightarrow> (None, 0)
                | Some bucket \<Rightarrow> find_best_match_combined sc unique_addr facility_name bucket))"

definition all_candidates :: "'d state_index \<Rightarrow> 'd candidate list" where
  "all_candidates by_state = concat (map snd by_state)"

definition fallback_phase ::
  "scorer \<Rightarrow> 'd state_index \<Rightarrow> string \<Rightarrow> string \<Rightarrow> 'd option \<times> real" where
  "fallback_phase sc by_state unique_addr facility_name =
     find_best_match_combined sc unique_addr facility_name (all_candidates by_state)"

definition resolve ::
  "scorer \<Rightarrow> 'd state_index \<Rightarrow> string option \<Rightarrow> string \<Rightarrow> string \<Rightarrow> 'd option \<times> real" where
  "resolve sc by_state target_state unique_addr facility_name =
     (case state_filtered_phase sc by_state target_state unique_addr facility_name of
        (match, score) \<Rightarrow>
          if match = None \<or> score < match_threshold
          then fallback_phase sc by_state unique_addr facility_name
          else (match, score))"

text \<open>
  The Corporations list is matched by name only, and its best candidate is kept only at or
  above the threshold.
\<close>

fun corporations_loop ::
  "scorer \<Rightarrow> string \<Rightarrow> 'd candidate list \<Rightarrow> 'd option \<times> real \<Rightarrow> 'd option \<times> real" where
  "corporations_loop sc facility_name [] best = best"
| "corporations_loop sc facility_name ((addr_str, name_str, data) # rest)
       (best_corp_match, best_corp_score) =
     (let score = similarity sc facility_name name_str
      in if score > best_corp_score
         then corporations_loop sc facility_name rest (Some data, score)
         else corporations_loop sc facility_name rest (best_corp_match, best_corp_score))"

definition resolve_corporations ::
  "scorer \<Rightarrow> 'd candidate list \<Rightarrow> string \<Rightarrow> 'd option \<times> real" where
  "resolve_corporations sc corporations_candidates facility_name =
     (if corporations_candidates \<noteq> [] then
        (case corporations_loop sc facility_name corporations_candidates (None, 0) of
           (best_corp_match, best_corp_score) \<Rightarrow>
             if best_corp_match \<noteq> None \<and> best_corp_score \<ge> match_threshold
             then (best_corp_match, best_corp_score)
             else (None, 0))
      else (None, 0))"

section \<open>Result rows\<close>

text \<open>
  \<open>round(x, 3)\<close>: the nearest multiple of one thousandth, a tie going to the even one.
\<close>

definition round_half_even :: "real \<Rightarrow> int" where
  "round_half_even y =
     (let f = \<lfloor>y\<rfloor>; d = y - of_int f
      in if d < 1 / 2 then f else if d > 1 / 2 then f + 1 else if even f then f else f + 1)"

definition py_round3 :: "real \<Rightarrow> real" where
  "py_round3 x = of_int (round_half_even (x * 1000)) / 1000"

record result_row =
  unique_address :: string
  facility_name :: string
  target_state :: string
  hubspot_company_name :: string
  hubspot_record_id :: "string option"
  hubspot_full_address :: string
  hubspot_parent_company :: string
  hubspot_match_score :: real
  clickup_task_name :: string
  clickup_task_location :: string
  clickup_match_score :: real
  clickup_task_url :: "string option"
  corporations_task_name :: string
  corporations_task_location :: string
  corporations_task_url :: "string option"
  corporations_match_score :: real

text \<open>
  \<open>m.get(key) if m and score >= match_threshold else ''\<close> and
  \<open>round(score, 3) if m else 0\<close>.
\<close>

definition field_if_accepted :: "'d option \<Rightarrow> real \<Rightarrow> ('d \<Rightarrow> 'a) \<Rightarrow> 'a \<Rightarrow> 'a" where
  "field_if_accepted m score get blank =
     (case m of
        Some d \<Rightarrow> if score \<ge> match_threshold then get d else blank
      | None \<Rightarrow> blank)"

definition reported_score :: "'d option \<Rightarrow> real \<Rightarrow> real" where
  "reported_score m score = (case m of Some d \<Rightarrow> py_round3 score | None \<Rightarrow> 0)"

text \<open>
  The body of the loop over the targets in \<open>main\<close>, without the counters of the summary.
\<close>

definition match_row ::
  "scorer \<Rightarrow> hubspot_data state_index \<Rightarrow> clickup_data state_index
     \<Rightarrow> corporations_data candidate list \<Rightarrow> string \<Rightarrow> string \<Rightarrow> result_row" where
  "match_row sc hubspot_by_state clickup_by_state corporations_candidates unique_addr fac_name =
     (let tstate = extract_state_from_address (Some unique_addr) in
      case resolve sc hubspot_by_state tstate unique_addr fac_name of (hs_match, hs_score) \<Rightarrow>
      case resolve sc clickup_by_state tstate unique_addr fac_name of (cu_match, cu_score) \<Rightarrow>
      case resolve_corporations sc corporations_candidates fac_name of (corp_match, corp_score) \<Rightarrow>
        \<lparr>unique_address = unique_addr,
         facility_name = fac_name,
         target_state = (case tstate of Some st \<Rightarrow> st | None \<Rightarrow> []),
         hubspot_company_name = field_if_accepted hs_match hs_score data_hubspot_company_name [],
         hubspot_record_id = field_if_accepted hs_match hs_score data_hubspot_record_id (Some []),
         hubspot_full_address = field_if_accepted hs_match hs_score data_hubspot_full_address [],
         hubspot_parent_company =
           field_if_accepted hs_match hs_score data_hubspot_parent_company [],
         hubspot_match_score = reported_score hs_match hs_score,
         clickup_task_name = field_if_accepted cu_match cu_score data_clickup_task_name [],
         clickup_task_location =
           field_if_accepted cu_match cu_score data_clickup_task_location [],
         clickup_match_score = reported_score cu_match cu_score,
         clickup_task_url = field_if_accepted cu_match cu_score data_clickup_url (Some []),
         corporations_task_name =
           field_if_accepted corp_match corp_score data_corporations_task_name [],
         corporations_task_location =
           field_if_accepted corp_match corp_score data_corporations_task_location [],
         corporations_task_url =
           field_if_accepted corp_match corp_score data_corporations_task_url (Some []),
         corporations_match_score = reported_score corp_match corp_score\<rparr>)"

section \<open>Contact deduplication\<close>

text \<open>
  A row of the contact table after the enrichment loop of \<open>process_contact_import.main\<close>:
  the columns that enter the deduplication key and, in \<open>other_columns\<close>, the rest of the
  row. \<open>facility\<close> and \<open>emails\<close> come from the sheet and may be null; \<open>First Name\<close>
  and \<open>Last Name\<close> were written by the loop and are strings.
\<close>

record 'a contact_row =
  facility :: "string option"
  First_Name :: string
  Last_Name :: string
  emails :: "string option"
  other_columns :: 'a

text \<open>
  \<open>fillna('')\<close> on a cell, and \<open>.str.lower().str.strip()\<close> on a string.
\<close>

definition fillna :: "string option \<Rightarrow> string" where
  "fillna cell = (case cell of None \<Rightarrow> [] | Some s \<Rightarrow> s)"

definition key_part :: "string \<Rightarrow> string" where
  "key_part s = py_strip (py_lower s)"

text \<open>
  The column \<open>dedup_key\<close>: the four parts joined by \<open>|\<close>.
\<close>

definition dedup_key :: "'a contact_row \<Rightarrow> string" where
  "dedup_key r =
     key_part (fillna (facility r)) @ ''|'' @ key_part (First_Name r) @ ''|''
       @ key_part (Last_Name r) @ ''|'' @ key_part (fillna (emails r))"

text \<open>
  \<open>drop_duplicates(subset=['dedup_key'], keep='first')\<close>: a row is dropped when an earlier
  row has the same key; \<open>seen\<close> holds the keys of the earlier rows.
\<close>

fun drop_duplicates :: "('r \<Rightarrow> 'k) \<Rightarrow> 'k list \<Rightarrow> 'r list \<Rightarrow> 'r list" where
  "drop_duplicates key seen [] = []"
| "drop_duplicates key seen (r # rs) =
     (if key r \<in> set seen then drop_duplicates key seen rs
      else r # drop_duplicates key (key r # seen) rs)"

definition deduplicate_contacts :: "'a contact_row list \<Rightarrow> 'a contact_row list" where
  "deduplicate_contacts rows = drop_duplicates dedup_key [] rows"

text \<open>
  The composite key in the words of the specification, the tuple of the four parts, and the
  rows none of whose first three parts contains the separator.
\<close>

definition spec_key :: "'a contact_row \<Rightarrow> string \<times> string \<times> string \<times> string" where
  "spec_key r =
     (key_part (fillna (facility r)), key_part (First_Name r), key_part (Last_Name r),
      key_part (fillna (emails r)))"


definition bar_free :: "'a contact_row \<Rightarrow> bool" where
  "bar_free r \<longleftrightarrow>
     CHR ''|'' \<notin> set (key_part (fillna (facility r)))
     \<and> CHR ''|'' \<notin> set (key_part (First_Name r))
     \<and> CHR ''|'' \<notin> set (key_part (Last_Name r))"

section \<open>Suffix removal in the words of the specification\<close>

text \<open>
  The specification describes the effect of the two substitutions as the removal of a
  trailing suffix with an optional preceding comma. \<open>spec_remove_suffix\<close> says this
  without a regular expression, for comparison with \<open>sub_suffix\<close>: when the string ends
  in the literal, the literal goes, then the whitespace before it, then one comma before
  that whitespace. \<open>py_rstrip\<close> is \<open>str.rstrip\<close>.
\<close>

definition py_rstrip :: "string \<Rightarrow> string" where
  "py_rstrip s = rev (dropWhile py_isspace (rev s))"

definition spec_remove_suffix :: "string \<Rightarrow> string \<Rightarrow> string" where
  "spec_remove_suffix lit s =
     (if suffix lit s then
        (let p = py_rstrip (take (length s - length lit) s)
         in if p \<noteq> [] \<and> last p = CHR '','' then butlast p else p)
      else s)"

section \<open>Sample inputs\<close>

text \<open>
  Inputs for closed instances: the target \<open>100 Oak Ave, Austin, TX 78701\<close> of facility
  \<open>Oak Facility\<close>, source rows of a HubSpot company and of a ClickUp task at that address,
  with and without a name, two Corporations lists, and a scorer that knows the ratios of the
  pairs involved.
\<close>

definition sample_target :: string where
  "sample_target = ''100 Oak Ave, Austin, TX 78701''"

definition sample_facility :: string where
  "sample_facility = ''Oak Facility''"

definition sample_scorer :: scorer where
  "sample_scorer =
     RapidFuzz (table_ratio
       [((''100 Oak Ave, Austin, TX 78701'', ''100 Oak Avenue, Austin, TX 78701''), 90),
        ((''Oak Facility'', ''Oak Facility Inc''), 100),
        ((''Oak Facility'', ''Oak Facility Group''), 100),
        ((''Oak Facility'', ''Pine Holdings''), 25)])"

definition sample_hubspot_rows :: "(string option \<times> string \<times> string \<times> string) list" where
  "sample_hubspot_rows =
     [(Some ''101'', ''Oak Facility Inc'', ''100 Oak Avenue, Austin, TX 78701'', ''Oak Group'')]"

definition sample_clickup_rows :: "(string option \<times> string \<times> string \<times> string option) list" where
  "sample_clickup_rows =
     [(Some ''86a2vwzc1'', ''Oak Facility Inc'', ''100 Oak Avenue, Austin, TX 78701'',
       Some ''https://app.clickup.com/t/86a2vwzc1'')]"

definition sample_corporations_far_rows :: "(string option \<times> string \<times> string option) list" where
  "sample_corporations_far_rows = [(Some ''c1'', ''Pine Holdings'', None)]"

definition sample_corporations_near_rows :: "(string option \<times> string \<times> string option) list" where
  "sample_corporations_near_rows = [(Some ''c2'', ''Oak Facility Group'', None)]"

definition sample_nameless_hubspot_rows :: "(string option \<times> string \<times> string \<times> string) list" where
  "sample_nameless_hubspot_rows = [(None, [], ''100 Oak Avenue, Austin, TX 78701'', [])]"

definition sample_nameless_clickup_rows :: "(string option \<times> string \<times> string \<times> string option) list" where
  "sample_nameless_clickup_rows = [(None, [], ''100 Oak Avenue, Austin, TX 78701'', None)]"

section \<open>What the regular-expression pieces match\<close>

text \<open>
  Every continuation used after \<open>\s*\<close> or \<open>\s+\<close> in the patterns starts with a
  character that is not whitespace, so backtracking into the whitespace run never helps and
  the run is consumed whole. With this the three patterns are described by the shape of the
  text they match.
\<close>

lemma letter_not_space: "ascii_letter c \<Longrightarrow> \<not> py_isspace c"
  by (auto simp: ascii_letter_def py_isspace_def Let_def)

lemma digit_not_space: "re_digit c \<Longrightarrow> \<not> py_isspace c"
  by (auto simp: re_digit_def py_isspace_def Let_def)

lemma comma_not_space: "\<not> py_isspace (CHR '','')"
  by (simp add: py_isspace_def)

lemma star_ws_greedy:
  assumes "\<And>c cs. py_isspace c \<Longrightarrow> k (c # cs) = None"
  shows "star_ws k r = k (dropWhile py_isspace r)"
  using assms by (induction r) (auto split: option.splits)

lemma two_letters_space: "py_isspace c \<Longrightarrow> two_letters k (c # cs) = None"
  by (auto simp: two_letters_def letter_not_space split: list.splits)

lemma five_digits_space: "py_isspace c \<Longrightarrow> five_digits k (c # cs) = None"
  by (auto simp: five_digits_def digit_not_space)

lemma comma_space: "py_isspace c \<Longrightarrow> comma k (c # cs) = None"
  using comma_not_space by (auto simp: comma_def)

lemma dropWhile_space_decomp:
  "dropWhile py_isspace r = t \<longleftrightarrow>
     (\<exists>ws. r = ws @ t \<and> list_all py_isspace ws \<and> (t = [] \<or> \<not> py_isspace (hd t)))"
proof
  assume "dropWhile py_isspace r = t"
  then have "r = takeWhile py_isspace r @ t" "list_all py_isspace (takeWhile py_isspace r)"
    "t = [] \<or> \<not> py_isspace (hd t)"
    by (auto simp: list_all_iff dest: set_takeWhileD hd_dropWhile)
  then show "\<exists>ws. r = ws @ t \<and> list_all py_isspace ws \<and> (t = [] \<or> \<not> py_isspace (hd t))"
    by blast
next
  assume "\<exists>ws. r = ws @ t \<and> list_all py_isspace ws \<and> (t = [] \<or> \<not> py_isspace (hd t))"
  then obtain ws where "r = ws @ t" "list_all py_isspace ws" "t = [] \<or> \<not> py_isspace (hd t)"
    by blast
  then show "dropWhile py_isspace r = t"
    by (cases t) (auto simp: list_all_iff dropWhile_append)
qed

lemma zip_tail_iff:
  "plus_ws (five_digits (\<lambda>_. Some g)) r = Some g' \<longleftrightarrow>
     g' = g \<and> (\<exists>ws ds rest. r = ws @ ds @ rest \<and> ws \<noteq> [] \<and> list_all py_isspace ws
                  \<and> length ds = 5 \<and> list_all re_digit ds)"
  (is "?L \<longleftrightarrow> ?R")
proof
  assume L: ?L
  then obtain c cs where r: "r = c # cs" and c: "py_isspace c"
    by (auto simp: plus_ws_def split: list.splits if_splits)
  let ?t = "dropWhile py_isspace cs"
  from L r c have "five_digits (\<lambda>_. Some g) ?t = Some g'"
    by (simp add: plus_ws_def star_ws_greedy five_digits_space)
  then have g: "g' = g" and t: "5 \<le> length ?t" "list_all re_digit (take 5 ?t)"
    by (auto simp: five_digits_def split: if_splits)
  have "r = (c # takeWhile py_isspace cs) @ take 5 ?t @ drop 5 ?t"
    using r by simp
  moreover have "list_all py_isspace (c # takeWhile py_isspace cs)"
    using c by (auto simp: list_all_iff dest: set_takeWhileD)
  ultimately show ?R using g t
    by (metis length_take list.distinct(1) min.absorb2)
next
  assume ?R
  then obtain ws ds rest where g: "g' = g" and r: "r = ws @ ds @ rest" and ws: "ws \<noteq> []"
    "list_all py_isspace ws" and ds: "length ds = 5" "list_all re_digit ds"
    by blast
  from ws obtain c cs where wsc: "ws = c # cs" "py_isspace c" "list_all py_isspace cs"
    by (cases ws) auto
  from ds have "ds \<noteq> []" "re_digit (hd ds)" by (cases ds; auto)+
  then have "dropWhile py_isspace (cs @ ds @ rest) = ds @ rest"
    using wsc(3) digit_not_space by (subst dropWhile_space_decomp) (auto intro!: exI[of _ cs])
  moreover have "star_ws (five_digits (\<lambda>_. Some g)) (cs @ ds @ rest)
      = five_digits (\<lambda>_. Some g) (dropWhile py_isspace (cs @ ds @ rest))"
    by (rule star_ws_greedy) (rule five_digits_space)
  ultimately show ?L
    using g r wsc ds
    by (simp add: plus_ws_def five_digits_def)
qed


lemma comma_tail_iff:
  "star_ws (comma (\<lambda>_. Some g)) r = Some g' \<longleftrightarrow>
     g' = g \<and> (\<exists>ws rest. r = ws @ CHR '','' # rest \<and> list_all py_isspace ws)"
  (is "?L \<longleftrightarrow> ?R")
proof -
  have eq: "star_ws (comma (\<lambda>_. Some g)) r = comma (\<lambda>_. Some g) (dropWhile py_isspace r)"
    by (rule star_ws_greedy) (rule comma_space)
  show ?thesis
  proof
    assume ?L
    then obtain rest where "dropWhile py_isspace r = CHR '','' # rest" and g: "g' = g"
      by (auto simp: eq comma_def split: list.splits if_splits)
    then have "\<exists>ws. r = ws @ CHR '','' # rest \<and> list_all py_isspace ws"
      by (auto simp: dropWhile_space_decomp)
    with g show ?R by blast
  next
    assume ?R
    then obtain ws rest where g: "g' = g" and r: "r = ws @ CHR '','' # rest"
      and ws: "list_all py_isspace ws"
      by blast
    have "dropWhile py_isspace r = CHR '','' # rest"
      using r ws comma_not_space by (subst dropWhile_space_decomp) auto
    with g show ?L by (simp add: eq comma_def)
  qed
qed

lemma two_letters_iff:
  "two_letters K r = Some x \<longleftrightarrow>
     (\<exists>g rest. r = g @ rest \<and> length g = 2 \<and> list_all ascii_letter g \<and> K g rest = Some x)"
  (is "?L \<longleftrightarrow> ?R")
proof
  assume ?L
  then obtain a b cs where "r = [a, b] @ cs" "ascii_letter a" "ascii_letter b" "K [a, b] cs = Some x"
    by (auto simp: two_letters_def split: list.splits if_splits)
  then show ?R by (intro exI[of _ "[a, b]"] exI[of _ cs]) simp
next
  assume ?R
  then obtain g rest where r: "r = g @ rest" and g: "length g = 2" "list_all ascii_letter g"
    and K: "K g rest = Some x"
    by blast
  from g obtain a b where "g = [a, b]" "ascii_letter a" "ascii_letter b"
    by (cases g; cases "tl g"; auto)
  with r K show ?L by (simp add: two_letters_def)
qed

lemma comma_letters_iff:
  "comma (star_ws (two_letters K)) r = Some x \<longleftrightarrow>
     (\<exists>ws g rest. r = CHR '','' # ws @ g @ rest \<and> list_all py_isspace ws \<and> length g = 2
        \<and> list_all ascii_letter g \<and> K g rest = Some x)"
  (is "?L \<longleftrightarrow> ?R")
proof -
  have eq: "star_ws (two_letters K) t = two_letters K (dropWhile py_isspace t)" for t
    by (rule star_ws_greedy) (rule two_letters_space)
  show ?thesis
  proof
    assume ?L
    then obtain t where r: "r = CHR '','' # t" and "two_letters K (dropWhile py_isspace t) = Some x"
      by (auto simp: comma_def eq split: list.splits if_splits)
    then obtain g rest where d: "dropWhile py_isspace t = g @ rest" and g: "length g = 2"
      "list_all ascii_letter g" and K: "K g rest = Some x"
      by (auto simp: two_letters_iff)
    from d obtain ws where "t = ws @ g @ rest" "list_all py_isspace ws"
      by (auto simp: dropWhile_space_decomp)
    with r g K show ?R by blast
  next
    assume ?R
    then obtain ws g rest where r: "r = CHR '','' # ws @ g @ rest" and ws: "list_all py_isspace ws"
      and g: "length g = 2" "list_all ascii_letter g" and K: "K g rest = Some x"
      by blast
    from g have "g \<noteq> []" "ascii_letter (hd g)" by (cases g; auto)+
    then have "dropWhile py_isspace (ws @ g @ rest) = g @ rest"
      using ws letter_not_space by (subst dropWhile_space_decomp) (auto intro!: exI[of _ ws])
    moreover have "two_letters K (g @ rest) = Some x"
      using g K by (subst two_letters_iff) blast
    ultimately show ?L using r by (simp add: comma_def eq)
  qed
qed

lemma pattern_comma_zip_iff:
  "pattern_comma_zip prev r = Some g \<longleftrightarrow>
     (\<exists>ws1 ws2 ds rest. r = CHR '','' # ws1 @ g @ ws2 @ ds @ rest
        \<and> list_all py_isspace ws1 \<and> length g = 2 \<and> list_all ascii_letter g
        \<and> ws2 \<noteq> [] \<and> list_all py_isspace ws2 \<and> length ds = 5 \<and> list_all re_digit ds)"
  unfolding pattern_comma_zip_def comma_letters_iff zip_tail_iff by blast

lemma pattern_comma_comma_iff:
  "pattern_comma_comma prev r = Some g \<longleftrightarrow>
     (\<exists>ws1 ws2 rest. r = CHR '','' # ws1 @ g @ ws2 @ CHR '','' # rest
        \<and> list_all py_isspace ws1 \<and> length g = 2 \<and> list_all ascii_letter g
        \<and> list_all py_isspace ws2)"
  unfolding pattern_comma_comma_def comma_letters_iff comma_tail_iff by blast

lemma pattern_word_zip_iff:
  "pattern_word_zip prev r = Some g \<longleftrightarrow>
     (\<exists>ws2 ds rest. r = g @ ws2 @ ds @ rest
        \<and> (case prev of None \<Rightarrow> True | Some p \<Rightarrow> \<not> re_word p)
        \<and> length g = 2 \<and> list_all ascii_letter g
        \<and> ws2 \<noteq> [] \<and> list_all py_isspace ws2 \<and> length ds = 5 \<and> list_all re_digit ds)"
  (is "?L \<longleftrightarrow> ?R")
proof -
  have w: "ascii_letter c \<Longrightarrow> re_word c" for c
    by (auto simp: ascii_letter_def re_word_def Let_def)
  have b: "word_boundary prev (g @ t) \<longleftrightarrow> (case prev of None \<Rightarrow> True | Some p \<Rightarrow> \<not> re_word p)"
    if "length g = 2" "list_all ascii_letter g" for t
    using that w by (cases g) (auto simp: word_boundary_def split: option.splits)
  show ?thesis
  proof
    assume L: ?L
    then have wb: "word_boundary prev r"
      and "two_letters (\<lambda>g. plus_ws (five_digits (\<lambda>_. Some g))) r = Some g"
      by (auto simp: pattern_word_zip_def split: if_splits)
    then obtain ws2 ds rest where "r = g @ ws2 @ ds @ rest" "length g = 2" "list_all ascii_letter g"
      "ws2 \<noteq> []" "list_all py_isspace ws2" "length ds = 5" "list_all re_digit ds"
      unfolding two_letters_iff zip_tail_iff by blast
    with wb b show ?R by blast
  next
    assume R: ?R
    then obtain ws2 ds rest where r: "r = g @ ws2 @ ds @ rest"
      and p: "case prev of None \<Rightarrow> True | Some p \<Rightarrow> \<not> re_word p"
      and g: "length g = 2" "list_all ascii_letter g"
      and rest: "ws2 \<noteq> []" "list_all py_isspace ws2" "length ds = 5" "list_all re_digit ds"
      by blast
    have "word_boundary prev r" using b[OF g] p r by simp
    moreover have "two_letters (\<lambda>g. plus_ws (five_digits (\<lambda>_. Some g))) r = Some g"
      unfolding two_letters_iff zip_tail_iff using r g rest by blast
    ultimately show ?L by (simp add: pattern_word_zip_def)
  qed
qed

section \<open>Properties of state extraction\<close>

lemma try_patterns_Some_iff:
  "try_patterns ps a = Some s \<longleftrightarrow>
     (\<exists>i<length ps. \<exists>g. re_search (ps ! i) None a = Some g \<and> py_upper g = s \<and> s \<in> set us_states
        \<and> (\<forall>j<i. \<forall>h. re_search (ps ! j) None a = Some h \<longrightarrow> py_upper h \<notin> set us_states))"
proof (induction ps)
  case Nil
  show ?case by simp
next
  case (Cons p ps)
  show ?case
  proof (cases "re_search p None a")
    case None
    then show ?thesis
      by (simp add: Cons.IH Ex_less_Suc2 All_less_Suc2)
  next
    case (Some g)
    show ?thesis
    proof (cases "py_upper g \<in> set us_states")
      case True
      with Some show ?thesis
        by (auto simp: Let_def Ex_less_Suc2 All_less_Suc2)
    next
      case False
      with Some show ?thesis
        by (auto simp: Let_def Cons.IH Ex_less_Suc2 All_less_Suc2)
    qed
  qed
qed

lemma re_search_leftmost:
  "re_search P prev b = Some m \<longleftrightarrow>
     (\<exists>i\<le>length b.
        P (if i = 0 then prev else Some (b ! (i - 1))) (drop i b) = Some m
        \<and> (\<forall>j<i. P (if j = 0 then prev else Some (b ! (j - 1))) (drop j b) = None))"
proof (induction b arbitrary: prev)
  case Nil
  show ?case by simp
next
  case (Cons c cs)
  show ?case
  proof (cases "P prev (c # cs)")
    case (Some g)
    have "(\<exists>i\<le>length (c # cs).
        P (if i = 0 then prev else Some ((c # cs) ! (i - 1))) (drop i (c # cs)) = Some m
        \<and> (\<forall>j<i. P (if j = 0 then prev else Some ((c # cs) ! (j - 1))) (drop j (c # cs)) = None))
      \<longleftrightarrow> g = m"
    proof
      assume "\<exists>i\<le>length (c # cs).
        P (if i = 0 then prev else Some ((c # cs) ! (i - 1))) (drop i (c # cs)) = Some m
        \<and> (\<forall>j<i. P (if j = 0 then prev else Some ((c # cs) ! (j - 1))) (drop j (c # cs)) = None)"
      then obtain i where i: "P (if i = 0 then prev else Some ((c # cs) ! (i - 1))) (drop i (c # cs)) = Some m"
        "\<forall>j<i. P (if j = 0 then prev else Some ((c # cs) ! (j - 1))) (drop j (c # cs)) = None"
        by blast
      show "g = m"
      proof (cases "i = 0")
        case True
        with i(1) Some show ?thesis by simp
      next
        case False
        with i(2) have "P prev (c # cs) = None" by (auto dest: spec [of _ 0])
        with Some show ?thesis by simp
      qed
    next
      assume "g = m"
      with Some show "\<exists>i\<le>length (c # cs).
        P (if i = 0 then prev else Some ((c # cs) ! (i - 1))) (drop i (c # cs)) = Some m
        \<and> (\<forall>j<i. P (if j = 0 then prev else Some ((c # cs) ! (j - 1))) (drop j (c # cs)) = None)"
        by (intro exI [of _ 0]) simp
    qed
    with Some show ?thesis by auto
  next
    case None
    have shift: "(if Suc k = 0 then prev else Some ((c # cs) ! (Suc k - 1)))
        = (if k = 0 then Some c else Some (cs ! (k - 1)))" for k
      by (cases k) simp_all
    have "(\<exists>i\<le>length (c # cs).
        P (if i = 0 then prev else Some ((c # cs) ! (i - 1))) (drop i (c # cs)) = Some m
        \<and> (\<forall>j<i. P (if j = 0 then prev else Some ((c # cs) ! (j - 1))) (drop j (c # cs)) = None))
      \<longleftrightarrow> (\<exists>i\<le>length cs.
        P (if i = 0 then Some c else Some (cs ! (i - 1))) (drop i cs) = Some m
        \<and> (\<forall>j<i. P (if j = 0 then Some c else Some (cs ! (j - 1))) (drop j cs) = None))"
      (is "?L \<longleftrightarrow> ?R")
    proof
      assume ?L
      then obtain i where i: "i \<le> length (c # cs)"
        "P (if i = 0 then prev else Some ((c # cs) ! (i - 1))) (drop i (c # cs)) = Some m"
        "\<forall>j<i. P (if j = 0 then prev else Some ((c # cs) ! (j - 1))) (drop j (c # cs)) = None"
        by blast
      from i(2) None obtain k where k: "i = Suc k" by (cases i) auto
      from i(1,2) k have "k \<le> length cs"
        "P (if k = 0 then Some c else Some (cs ! (k - 1))) (drop k cs) = Some m"
        using shift [of k] by simp_all
      moreover have "P (if j = 0 then Some c else Some (cs ! (j - 1))) (drop j cs) = None" if "j < k" for j
        using i(3) [rule_format, of "Suc j"] that k shift [of j] by simp
      ultimately show ?R by blast
    next
      assume ?R
      then obtain k where k: "k \<le> length cs"
        "P (if k = 0 then Some c else Some (cs ! (k - 1))) (drop k cs) = Some m"
        "\<forall>j<k. P (if j = 0 then Some c else Some (cs ! (j - 1))) (drop j cs) = None"
        by blast
      have "P (if j = 0 then prev else Some ((c # cs) ! (j - 1))) (drop j (c # cs)) = None"
        if "j < Suc k" for j
      proof (cases j)
        case 0
        with None show ?thesis by simp
      next
        case (Suc j')
        with that k(3) [rule_format, of j'] shift [of j'] show ?thesis by simp
      qed
      moreover from k(2) shift [of k]
      have "P (if Suc k = 0 then prev else Some ((c # cs) ! (Suc k - 1))) (drop (Suc k) (c # cs)) = Some m"
        by simp
      ultimately show ?L using k(1) by (intro exI [of _ "Suc k"]) simp
    qed
    with None Cons.IH [of "Some c"] show ?thesis by simp
  qed
qed

lemma upper_char_letter:
  "ascii_letter c \<Longrightarrow>
     (of_char (upper_char c) :: nat) = (if 97 \<le> (of_char c :: nat) then of_char c - 32 else of_char c)"
  by (auto simp: ascii_letter_def upper_char_def Let_def)

text \<open>
  Claim C4 as stated fails: a pattern is searched once, so only its leftmost match is looked
  at. In the address below the leftmost match of pattern (a) and of pattern (c) is
  \<open>PO 12345\<close>, whose code is no state, pattern (b) has no match, and the result is
  \<open>None\<close>, although pattern (a) also matches \<open>, TX 75001\<close> further right with the valid
  code \<open>TX\<close>.
\<close>

theorem extract_state_later_match_counterexample:
  "extract_state_from_address (Some ''1 Oak Rd, PO 12345, Dallas, TX 75001'') = None
   \<and> ''1 Oak Rd, PO 12345, Dallas, TX 75001'' = ''1 Oak Rd, PO 12345, Dallas'' @ '', TX 75001''
   \<and> pattern_comma_zip (Some CHR ''s'') '', TX 75001'' = Some ''TX''
   \<and> py_upper ''TX'' \<in> set us_states"
  by code_simp

text \<open>
  Claim C4, amended. State extraction applies the three patterns in the order (a) comma,
  two letters, whitespace, five digits, (b) comma, two letters, comma, (c) word boundary, two
  letters, whitespace, five digits, where whitespace may follow the comma of (a) and (b) and
  precede the second comma of (b). Each pattern contributes only the group of its leftmost
  match, and a later match of the same pattern is not tried; the result is the upper-cased
  group of the first pattern whose leftmost match has a code among the 56 distinct codes of
  \<open>us_states\<close>, and \<open>None\<close> when no pattern's leftmost match has one. On
  \<open>123 Main St, Springfield, IL 62701\<close> the result is \<open>IL\<close>, on
  \<open>no state info here\<close> it is \<open>None\<close>.
\<close>

theorem extract_state_patterns_in_order:
  "(extract_state_from_address (Some a) = Some s \<longleftrightarrow>
      a \<noteq> [] \<and>
      (\<exists>i<length patterns. \<exists>g.
          re_search (patterns ! i) None a = Some g \<and> py_upper g = s \<and> s \<in> set us_states
          \<and> (\<forall>j<i. \<forall>h. re_search (patterns ! j) None a = Some h
                 \<longrightarrow> py_upper h \<notin> set us_states)))
   \<and> (re_search P None b = Some m \<longleftrightarrow>
        (\<exists>i\<le>length b.
           P (if i = 0 then None else Some (b ! (i - 1))) (drop i b) = Some m
           \<and> (\<forall>j<i. P (if j = 0 then None else Some (b ! (j - 1))) (drop j b) = None)))
   \<and> patterns = [pattern_comma_zip, pattern_comma_comma, pattern_word_zip]
   \<and> (pattern_comma_zip prev r = Some ga \<longleftrightarrow>
        (\<exists>ws1 ws2 ds rest. r = CHR '','' # ws1 @ ga @ ws2 @ ds @ rest
           \<and> list_all py_isspace ws1 \<and> length ga = 2 \<and> list_all ascii_letter ga
           \<and> ws2 \<noteq> [] \<and> list_all py_isspace ws2 \<and> length ds = 5 \<and> list_all re_digit ds))
   \<and> (pattern_comma_comma prev r = Some gb \<longleftrightarrow>
        (\<exists>ws1 ws2 rest. r = CHR '','' # ws1 @ gb @ ws2 @ CHR '','' # rest
           \<and> list_all py_isspace ws1 \<and> length gb = 2 \<and> list_all ascii_letter gb
           \<and> list_all py_isspace ws2))
   \<and> (pattern_word_zip prev r = Some gc \<longleftrightarrow>
        (\<exists>ws2 ds rest. r = gc @ ws2 @ ds @ rest
           \<and> (case prev of None \<Rightarrow> True | Some p \<Rightarrow> \<not> re_word p)
           \<and> length gc = 2 \<and> list_all ascii_letter gc
           \<and> ws2 \<noteq> [] \<and> list_all py_isspace ws2 \<and> length ds = 5 \<and> list_all re_digit ds))
   \<and> py_upper w = map upper_char w
   \<and> (ascii_letter c \<longrightarrow>
        (of_char (upper_char c) :: nat)
          = (if 97 \<le> (of_char c :: nat) then of_char c - 32 else of_char c))
   \<and> length us_states = 56 \<and> distinct us_states
   \<and> set us_states =
       {''AL'', ''AK'', ''AZ'', ''AR'', ''CA'', ''CO'', ''CT'', ''DE'', ''FL'', ''GA'',
        ''HI'', ''ID'', ''IL'', ''IN'', ''IA'', ''KS'', ''KY'', ''LA'', ''ME'', ''MD'',
        ''MA'', ''MI'', ''MN'', ''MS'', ''MO'', ''MT'', ''NE'', ''NV'', ''NH'', ''NJ'',
        ''NM'', ''NY'', ''NC'', ''ND'', ''OH'', ''OK'', ''OR'', ''PA'', ''RI'', ''SC'',
        ''SD'', ''TN'', ''TX'', ''UT'', ''VT'', ''VA'', ''WA'', ''WV'', ''WI'', ''WY'',
        ''DC'', ''PR'', ''VI'', ''GU'', ''AS'', ''MP''}
   \<and> extract_state_from_address (Some ''123 Main St, Springfield, IL 62701'') = Some ''IL''
   \<and> extract_state_from_address (Some ''no state info here'') = None
   \<and> extract_state_from_address (Some ''Austin, TX, USA'') = Some ''TX''
   \<and> extract_state_from_address (Some ''Oak TX 78701'') = Some ''TX''
   \<and> extract_state_from_address (Some ''austin, tx 78701'') = Some ''TX''
   \<and> extract_state_from_address (Some ''1 Oak Rd, PO 12345, Dallas, TX 75001'') = None"
proof -
  have 1: "extract_state_from_address (Some a) = Some s \<longleftrightarrow>
      a \<noteq> [] \<and>
      (\<exists>i<length patterns. \<exists>g.
          re_search (patterns ! i) None a = Some g \<and> py_upper g = s \<and> s \<in> set us_states
          \<and> (\<forall>j<i. \<forall>h. re_search (patterns ! j) None a = Some h
                 \<longrightarrow> py_upper h \<notin> set us_states))"
    by (simp add: extract_state_from_address_def try_patterns_Some_iff)
  have 2: "length us_states = 56 \<and> distinct us_states"
    by code_simp
  have 3: "extract_state_from_address (Some ''123 Main St, Springfield, IL 62701'') = Some ''IL''"
    "extract_state_from_address (Some ''no state info here'') = None"
    "extract_state_from_address (Some ''Austin, TX, USA'') = Some ''TX''"
    "extract_state_from_address (Some ''Oak TX 78701'') = Some ''TX''"
    "extract_state_from_address (Some ''austin, tx 78701'') = Some ''TX''"
    "extract_state_from_address (Some ''1 Oak Rd, PO 12345, Dallas, TX 75001'') = None"
    by code_simp+
  have 4: "ascii_letter c \<longrightarrow>
        (of_char (upper_char c) :: nat)
          = (if 97 \<le> (of_char c :: nat) then of_char c - 32 else of_char c)"
    by (simp add: upper_char_letter)
  have 5: "set us_states =
       {''AL'', ''AK'', ''AZ'', ''AR'', ''CA'', ''CO'', ''CT'', ''DE'', ''FL'', ''GA'',
        ''HI'', ''ID'', ''IL'', ''IN'', ''IA'', ''KS'', ''KY'', ''LA'', ''ME'', ''MD'',
        ''MA'', ''MI'', ''MN'', ''MS'', ''MO'', ''MT'', ''NE'', ''NV'', ''NH'', ''NJ'',
        ''NM'', ''NY'', ''NC'', ''ND'', ''OH'', ''OK'', ''OR'', ''PA'', ''RI'', ''SC'',
        ''SD'', ''TN'', ''TX'', ''UT'', ''VT'', ''VA'', ''WA'', ''WV'', ''WI'', ''WY'',
        ''DC'', ''PR'', ''VI'', ''GU'', ''AS'', ''MP''}"
    by (simp add: us_states_def)
  show ?thesis
    using 1 re_search_leftmost [of P None b m] patterns_def pattern_comma_zip_iff [of prev r ga]
      pattern_comma_comma_iff [of prev r gb] pattern_word_zip_iff [of prev r gc]
      py_upper_def [of w] 4 2 5 3
    by (intro conjI) (elim conjE, assumption)+
qed

theorem extract_state_patterns_in_order_witness:
  "extract_state_from_address (Some ''Austin, xy 12345, TX, USA'') = Some ''TX''
   \<and> pattern_word_zip None ''TX 78701'' = Some ''TX''
   \<and> (of_char (upper_char CHR ''t'') :: nat) = 84"
proof -
  let ?a = "''Austin, xy 12345, TX, USA''"
  have p0: "re_search (patterns ! 0) None ?a = Some ''xy''"
    by code_simp
  have u0: "py_upper ''xy'' \<notin> set us_states"
    by code_simp
  have p1: "re_search (patterns ! 1) None ?a = Some ''TX''"
    by code_simp
  have u1: "py_upper ''TX'' = ''TX''" "''TX'' \<in> set us_states" "1 < length patterns"
    by code_simp+
  have "\<forall>j<1::nat. \<forall>h. re_search (patterns ! j) None ?a = Some h \<longrightarrow> py_upper h \<notin> set us_states"
    using p0 u0 by simp
  with p1 u1 have "\<exists>i<length patterns. \<exists>g.
          re_search (patterns ! i) None ?a = Some g \<and> py_upper g = ''TX'' \<and> ''TX'' \<in> set us_states
          \<and> (\<forall>j<i. \<forall>h. re_search (patterns ! j) None ?a = Some h
                 \<longrightarrow> py_upper h \<notin> set us_states)"
    by (intro exI [of _ "1::nat"] exI [of _ "''TX''"] conjI)
  then have rhs: "?a \<noteq> [] \<and> (\<exists>i<length patterns. \<exists>g.
          re_search (patterns ! i) None ?a = Some g \<and> py_upper g = ''TX'' \<and> ''TX'' \<in> set us_states
          \<and> (\<forall>j<i. \<forall>h. re_search (patterns ! j) None ?a = Some h
                 \<longrightarrow> py_upper h \<notin> set us_states))"
    by simp
  note T = extract_state_patterns_in_order [where a = ?a and s = "''TX''" and prev = None and r = "''TX 78701''"
      and gc = "''TX''" and c = "CHR ''t''"]
  from T [THEN conjunct1, THEN iffD2, OF rhs]
  have e: "extract_state_from_address (Some ?a) = Some ''TX''" .
  have "list_all ascii_letter ''TX''" "list_all py_isspace '' ''" "list_all re_digit ''78701''"
    by code_simp+
  then have "\<exists>ws2 ds rest. ''TX 78701'' = ''TX'' @ ws2 @ ds @ rest
           \<and> (case None of None \<Rightarrow> True | Some p \<Rightarrow> \<not> re_word p)
           \<and> length ''TX'' = 2 \<and> list_all ascii_letter ''TX''
           \<and> ws2 \<noteq> [] \<and> list_all py_isspace ws2 \<and> length ds = 5 \<and> list_all re_digit ds"
    by (intro exI [of _ "'' ''"] exI [of _ "''78701''"] exI [of _ "[]"]) simp
  from T [THEN conjunct2, THEN conjunct2, THEN conjunct2, THEN conjunct2, THEN conjunct2,
      THEN conjunct1, THEN iffD2, OF this]
  have w: "pattern_word_zip None ''TX 78701'' = Some ''TX''" .
  have "ascii_letter CHR ''t''"
    by code_simp
  from T [THEN conjunct2, THEN conjunct2, THEN conjunct2, THEN conjunct2, THEN conjunct2,
      THEN conjunct2, THEN conjunct2, THEN conjunct1, THEN mp, OF this]
  have u: "(of_char (upper_char CHR ''t'') :: nat) = 84"
    by simp
  from e w u show ?thesis by (intro conjI)
qed

section \<open>Null and empty input\<close>

text \<open>
  Claim C8 holds for \<open>None\<close> and for the empty string, where state extraction returns
  \<open>None\<close> and normalisation the empty string, and it holds for normalisation on the null
  \<open>NaN\<close>. It fails for state extraction on \<open>NaN\<close>, the value of a blank address cell:
  \<open>not addr\<close> is false there and \<open>re.search\<close> raises \<open>TypeError\<close>.
\<close>

theorem extract_state_raises_on_nan:
  "extract_state_from_address_cell PyNaN = Inl TypeError
   \<and> normalize_address_cell PyNaN = Inr []
   \<and> extract_state_from_address_cell PyNone = Inr None
   \<and> extract_state_from_address_cell (PyStr []) = Inr None
   \<and> normalize_address_cell PyNone = Inr []
   \<and> normalize_address_cell (PyStr []) = Inr []"
  by (simp add: extract_state_from_address_cell_def normalize_address_cell_def truthy_def
      pd_isna_def normalize_address_def py_strip_def py_lower_def)

section \<open>The combined score\<close>

text \<open>
  Claim C1 as stated fails: with both names non-empty and a name similarity of zero the
  function returns the address similarity alone, not 0.6 times it. Here the addresses are
  equal (ratio 100) and the names \<open>abc\<close> and \<open>xyz\<close> share nothing (ratio 0): the result
  is 1, where the claimed weighted sum is 0.6.
\<close>

theorem combined_score_zero_name_score_counterexample:
  "''1 main st'' \<noteq> [] \<and> ''abc'' \<noteq> [] \<and> ''xyz'' \<noteq> []
   \<and> combined_similarity_score (RapidFuzz (table_ratio [((''1 main st'', ''1 main st''), 100)]))
      ''1 main st'' ''abc'' ''1 main st'' ''xyz'' = 1
   \<and> 0.6 * similarity (RapidFuzz (table_ratio [((''1 main st'', ''1 main st''), 100)]))
            ''1 main st'' ''1 main st''
     + 0.4 * similarity (RapidFuzz (table_ratio [((''1 main st'', ''1 main st''), 100)]))
            ''abc'' ''xyz'' = 0.6"
  by (simp add: combined_similarity_score_def table_ratio_def)

text \<open>
  Claim C1, amended. For non-empty target and candidate addresses,
  \<open>combined_similarity_score\<close> returns 0.6 times the address similarity plus 0.4 times the
  name similarity when both names are non-empty and their similarity is positive, and the
  address similarity alone otherwise.
\<close>

theorem combined_score_weighs_positive_name_score:
  "target_addr \<noteq> [] \<Longrightarrow> candidate_addr \<noteq> [] \<Longrightarrow>
  combined_similarity_score sc target_addr target_facility candidate_addr candidate_name =
    (if target_facility \<noteq> [] \<and> candidate_name \<noteq> [] \<and> similarity sc target_facility candidate_name > 0
     then 0.6 * similarity sc target_addr candidate_addr + 0.4 * similarity sc target_facility candidate_name
     else similarity sc target_addr candidate_addr)"
  by (simp add: combined_similarity_score_def Let_def)


theorem combined_score_weighs_positive_name_score_witness:
  "''1 main st'' \<noteq> [] \<and>
   combined_similarity_score
      (RapidFuzz (table_ratio [((''1 main st'', ''1 main st''), 100), ((''oak'', ''oak''), 100)]))
      ''1 main st'' ''oak'' ''1 main st'' ''oak'' = 0.6 * 1 + 0.4 * 1"
  using combined_score_weighs_positive_name_score [of "''1 main st''" "''1 main st''"
      "RapidFuzz (table_ratio [((''1 main st'', ''1 main st''), 100), ((''oak'', ''oak''), 100)])"
      "''oak''" "''oak''"]
  by (simp add: table_ratio_def)

section \<open>The linear scan\<close>

lemma best_match_loop_cases:
  "best_match_loop sc ta tf cs (m, s) = (m, s) \<and> (\<forall>c\<in>set cs. candidate_score sc ta tf c \<le> s)
   \<or> (\<exists>i<length cs.
         best_match_loop sc ta tf cs (m, s) = (Some (snd (snd (cs ! i))), candidate_score sc ta tf (cs ! i))
         \<and> s < candidate_score sc ta tf (cs ! i)
         \<and> (\<forall>j<length cs. candidate_score sc ta tf (cs ! j) \<le> candidate_score sc ta tf (cs ! i))
         \<and> (\<forall>j<i. candidate_score sc ta tf (cs ! j) < candidate_score sc ta tf (cs ! i)))"
proof (induction cs arbitrary: m s)
  case Nil
  show ?case by simp
next
  case (Cons c cs)
  obtain a n d where c: "c = (a, n, d)" by (cases c) auto
  let ?x = "candidate_score sc ta tf c"
  show ?case
  proof (cases "?x > s")
    case True
    then have step: "best_match_loop sc ta tf (c # cs) (m, s) = best_match_loop sc ta tf cs (Some d, ?x)"
      by (simp add: c candidate_score_def)
    from Cons.IH [of "Some d" ?x] show ?thesis
    proof
      assume "best_match_loop sc ta tf cs (Some d, ?x) = (Some d, ?x) \<and> (\<forall>c\<in>set cs. candidate_score sc ta tf c \<le> ?x)"
      then have "best_match_loop sc ta tf (c # cs) (m, s) = (Some (snd (snd ((c # cs) ! 0))), candidate_score sc ta tf ((c # cs) ! 0))"
        and "\<forall>j<length (c # cs). candidate_score sc ta tf ((c # cs) ! j) \<le> candidate_score sc ta tf ((c # cs) ! 0)"
        using step by (auto simp: c All_less_Suc2)
      with True show ?thesis
        by (intro disjI2 exI[of _ 0]) simp
    next
      assume "\<exists>i<length cs.
         best_match_loop sc ta tf cs (Some d, ?x) = (Some (snd (snd (cs ! i))), candidate_score sc ta tf (cs ! i))
         \<and> ?x < candidate_score sc ta tf (cs ! i)
         \<and> (\<forall>j<length cs. candidate_score sc ta tf (cs ! j) \<le> candidate_score sc ta tf (cs ! i))
         \<and> (\<forall>j<i. candidate_score sc ta tf (cs ! j) < candidate_score sc ta tf (cs ! i))"
      then obtain i where i: "i < length cs"
         "best_match_loop sc ta tf cs (Some d, ?x) = (Some (snd (snd (cs ! i))), candidate_score sc ta tf (cs ! i))"
         "?x < candidate_score sc ta tf (cs ! i)"
         "\<forall>j<length cs. candidate_score sc ta tf (cs ! j) \<le> candidate_score sc ta tf (cs ! i)"
         "\<forall>j<i. candidate_score sc ta tf (cs ! j) < candidate_score sc ta tf (cs ! i)"
        by blast
      with True step show ?thesis
        by (intro disjI2 exI[of _ "Suc i"]) (simp add: All_less_Suc2)
    qed
  next
    case False
    then have step: "best_match_loop sc ta tf (c # cs) (m, s) = best_match_loop sc ta tf cs (m, s)"
      by (simp add: c candidate_score_def)
    from Cons.IH [of m s] show ?thesis
    proof
      assume "best_match_loop sc ta tf cs (m, s) = (m, s) \<and> (\<forall>c\<in>set cs. candidate_score sc ta tf c \<le> s)"
      with False step show ?thesis by simp
    next
      assume "\<exists>i<length cs.
         best_match_loop sc ta tf cs (m, s) = (Some (snd (snd (cs ! i))), candidate_score sc ta tf (cs ! i))
         \<and> s < candidate_score sc ta tf (cs ! i)
         \<and> (\<forall>j<length cs. candidate_score sc ta tf (cs ! j) \<le> candidate_score sc ta tf (cs ! i))
         \<and> (\<forall>j<i. candidate_score sc ta tf (cs ! j) < candidate_score sc ta tf (cs ! i))"
      then obtain i where i: "i < length cs"
         "best_match_loop sc ta tf cs (m, s) = (Some (snd (snd (cs ! i))), candidate_score sc ta tf (cs ! i))"
         "s < candidate_score sc ta tf (cs ! i)"
         "\<forall>j<length cs. candidate_score sc ta tf (cs ! j) \<le> candidate_score sc ta tf (cs ! i)"
         "\<forall>j<i. candidate_score sc ta tf (cs ! j) < candidate_score sc ta tf (cs ! i)"
        by blast
      with False step show ?thesis
        by (intro disjI2 exI[of _ "Suc i"]) (simp add: All_less_Suc2)
    qed
  qed
qed


lemma best_score_ge_start:
  "s \<le> snd (best_match_loop sc ta tf cs (m, s))"
  using best_match_loop_cases [of sc ta tf cs m s] by auto

lemma best_score_ge_candidate:
  assumes "c \<in> set cs"
  shows "candidate_score sc ta tf c \<le> snd (best_match_loop sc ta tf cs (m, s))"
proof -
  from assms obtain k where k: "k < length cs" "cs ! k = c"
    by (auto simp: in_set_conv_nth)
  from best_match_loop_cases [of sc ta tf cs m s] show ?thesis
  proof
    assume "best_match_loop sc ta tf cs (m, s) = (m, s) \<and> (\<forall>c\<in>set cs. candidate_score sc ta tf c \<le> s)"
    with assms show ?thesis by simp
  next
    assume "\<exists>i<length cs.
         best_match_loop sc ta tf cs (m, s) = (Some (snd (snd (cs ! i))), candidate_score sc ta tf (cs ! i))
         \<and> s < candidate_score sc ta tf (cs ! i)
         \<and> (\<forall>j<length cs. candidate_score sc ta tf (cs ! j) \<le> candidate_score sc ta tf (cs ! i))
         \<and> (\<forall>j<i. candidate_score sc ta tf (cs ! j) < candidate_score sc ta tf (cs ! i))"
    with k show ?thesis by auto
  qed
qed

lemma best_score_attained:
  "snd (best_match_loop sc ta tf cs (m, s)) = s
   \<or> (\<exists>c\<in>set cs. snd (best_match_loop sc ta tf cs (m, s)) = candidate_score sc ta tf c)"
proof -
  from best_match_loop_cases [of sc ta tf cs m s] show ?thesis
  proof
    assume "best_match_loop sc ta tf cs (m, s) = (m, s) \<and> (\<forall>c\<in>set cs. candidate_score sc ta tf c \<le> s)"
    then show ?thesis by simp
  next
    assume "\<exists>i<length cs.
         best_match_loop sc ta tf cs (m, s) = (Some (snd (snd (cs ! i))), candidate_score sc ta tf (cs ! i))
         \<and> s < candidate_score sc ta tf (cs ! i)
         \<and> (\<forall>j<length cs. candidate_score sc ta tf (cs ! j) \<le> candidate_score sc ta tf (cs ! i))
         \<and> (\<forall>j<i. candidate_score sc ta tf (cs ! j) < candidate_score sc ta tf (cs ! i))"
    then obtain i where "i < length cs"
      "snd (best_match_loop sc ta tf cs (m, s)) = candidate_score sc ta tf (cs ! i)"
      by auto
    then show ?thesis using nth_mem by blast
  qed
qed

lemma best_score_mono:
  assumes "set cs \<subseteq> set cs'"
  shows "snd (find_best_match_combined sc ta tf cs) \<le> snd (find_best_match_combined sc ta tf cs')"
  using best_score_attained [of sc ta tf cs None 0] best_score_ge_start [of 0 sc ta tf cs' None]
    best_score_ge_candidate [of _ cs' sc ta tf None 0] assms
  unfolding find_best_match_combined_def by auto

lemma bucket_subset_all:
  "map_of idx st = Some bucket \<Longrightarrow> set bucket \<subseteq> set (all_candidates idx)"
  by (auto simp: all_candidates_def dest!: map_of_SomeD)

lemma filtered_le_fallback:
  "snd (state_filtered_phase sc idx tstate addr fac) \<le> snd (fallback_phase sc idx addr fac)"
proof -
  have z: "0 \<le> snd (fallback_phase sc idx addr fac)"
    using best_score_ge_start [of 0 sc addr fac "all_candidates idx" None]
    by (simp add: fallback_phase_def find_best_match_combined_def)
  show ?thesis
  proof (cases "\<exists>st bucket. tstate = Some st \<and> st \<noteq> [] \<and> map_of idx st = Some bucket")
    case True
    then obtain st bucket where b: "tstate = Some st" "st \<noteq> []" "map_of idx st = Some bucket"
      by blast
    then have "state_filtered_phase sc idx tstate addr fac
        = find_best_match_combined sc addr fac bucket"
      by (simp add: state_filtered_phase_def)
    with best_score_mono [OF bucket_subset_all [OF b(3)], of sc addr fac] show ?thesis
      by (simp add: fallback_phase_def)
  next
    case False
    then have "state_filtered_phase sc idx tstate addr fac = (None, 0)"
      by (auto simp: state_filtered_phase_def split: option.splits)
    with z show ?thesis by simp
  qed
qed

text \<open>
  Claim C5. \<open>find_best_match_combined\<close> scans the candidates in order and replaces the best
  one only on a strictly greater score. On the empty list, and whenever no candidate scores
  above zero, it returns no candidate and score 0. Otherwise it returns the payload and score
  of the candidate at some position \<open>i\<close> whose score is maximal and strictly above the score
  of every earlier candidate, so the first of several candidates with the maximal score wins.
  Of two candidates scoring 0.6 and 0.61, in either order, the one scoring 0.61 is returned
  with score 0.61.
\<close>

theorem find_best_match_first_strict_maximum:
  "find_best_match_combined sc ta tf [] = (None, 0)
   \<and> ((\<forall>c\<in>set cs0. candidate_score sc ta tf c \<le> 0)
        \<longrightarrow> find_best_match_combined sc ta tf cs0 = (None, 0))
   \<and> ((\<exists>c\<in>set cs. candidate_score sc ta tf c > 0)
        \<longrightarrow> (\<exists>i<length cs.
               find_best_match_combined sc ta tf cs
                 = (Some (snd (snd (cs ! i))), candidate_score sc ta tf (cs ! i))
               \<and> (\<forall>j<length cs. candidate_score sc ta tf (cs ! j) \<le> candidate_score sc ta tf (cs ! i))
               \<and> (\<forall>j<i. candidate_score sc ta tf (cs ! j) < candidate_score sc ta tf (cs ! i))))
   \<and> (combined_similarity_score sc ta tf a1 n1 = 0.6
        \<and> combined_similarity_score sc ta tf a2 n2 = 0.61
        \<longrightarrow> find_best_match_combined sc ta tf [(a1, n1, d1), (a2, n2, d2)] = (Some d2, 0.61)
          \<and> find_best_match_combined sc ta tf [(a2, n2, d2), (a1, n1, d1)] = (Some d2, 0.61))"
proof -
  have none: "find_best_match_combined sc ta tf cs0 = (None, 0)"
    if "\<forall>c\<in>set cs0. candidate_score sc ta tf c \<le> 0"
  proof -
    have "\<not> (\<exists>i<length cs0. 0 < candidate_score sc ta tf (cs0 ! i))"
      using that nth_mem [of _ cs0] by (fastforce simp: not_less)
    with best_match_loop_cases [of sc ta tf cs0 None 0] show ?thesis
      unfolding find_best_match_combined_def by blast
  qed
  have some: "\<exists>i<length cs.
               find_best_match_combined sc ta tf cs
                 = (Some (snd (snd (cs ! i))), candidate_score sc ta tf (cs ! i))
               \<and> (\<forall>j<length cs. candidate_score sc ta tf (cs ! j) \<le> candidate_score sc ta tf (cs ! i))
               \<and> (\<forall>j<i. candidate_score sc ta tf (cs ! j) < candidate_score sc ta tf (cs ! i))"
    if "\<exists>c\<in>set cs. candidate_score sc ta tf c > 0"
  proof -
    from that have "\<not> (\<forall>c\<in>set cs. candidate_score sc ta tf c \<le> 0)" by (auto simp: not_le)
    with best_match_loop_cases [of sc ta tf cs None 0] show ?thesis
      unfolding find_best_match_combined_def by blast
  qed
  have two: "find_best_match_combined sc ta tf [(a1, n1, d1), (a2, n2, d2)] = (Some d2, 0.61)
          \<and> find_best_match_combined sc ta tf [(a2, n2, d2), (a1, n1, d1)] = (Some d2, 0.61)"
    if "combined_similarity_score sc ta tf a1 n1 = 0.6" "combined_similarity_score sc ta tf a2 n2 = 0.61"
    using that by (simp add: find_best_match_combined_def)
  show ?thesis
    using none some two by (simp add: find_best_match_combined_def)
qed

theorem find_best_match_first_strict_maximum_witness:
  "find_best_match_combined (RapidFuzz (table_ratio [((''t'', ''a1''), 60), ((''t'', ''a2''), 61)]))
        ''t'' [] [(''b'', ''n'', 7::nat)] = (None, 0)
   \<and> find_best_match_combined (RapidFuzz (table_ratio [((''t'', ''a1''), 60), ((''t'', ''a2''), 61)]))
        ''t'' [] [(''a1'', ''n'', 1::nat), (''a2'', ''n'', 2)] = (Some 2, 0.61)
   \<and> find_best_match_combined (RapidFuzz (table_ratio [((''t'', ''a1''), 60), ((''t'', ''a2''), 61)]))
        ''t'' [] [(''a2'', ''n'', 2::nat), (''a1'', ''n'', 1)] = (Some 2, 0.61)
   \<and> fst (find_best_match_combined (RapidFuzz (table_ratio [((''t'', ''a1''), 60), ((''t'', ''a2''), 61)]))
        ''t'' [] [(''a1'', ''n'', 1::nat), (''a2'', ''n'', 2)]) \<noteq> None"
proof -
  let ?sc = "RapidFuzz (table_ratio [((''t'', ''a1''), 60), ((''t'', ''a2''), 61)])"
  have h0: "\<forall>c\<in>set [(''b'', ''n'', 7::nat)]. candidate_score ?sc ''t'' [] c \<le> 0"
    by (simp add: candidate_score_def combined_similarity_score_def table_ratio_def)
  have h1: "combined_similarity_score ?sc ''t'' [] ''a1'' ''n'' = 0.6"
    by (simp add: combined_similarity_score_def table_ratio_def)
  have h2: "combined_similarity_score ?sc ''t'' [] ''a2'' ''n'' = 0.61"
    by (simp add: combined_similarity_score_def table_ratio_def)
  have h3: "\<exists>c\<in>set [(''a1'', ''n'', 1::nat), (''a2'', ''n'', 2)]. candidate_score ?sc ''t'' [] c > 0"
    by (simp add: candidate_score_def combined_similarity_score_def table_ratio_def)
  note T = find_best_match_first_strict_maximum [of ?sc "''t''" "[]" "[(''b'', ''n'', 7::nat)]"
      "[(''a1'', ''n'', 1::nat), (''a2'', ''n'', 2)]" "''a1''" "''n''" "''a2''" "''n''" 1 2]
  note r0 = T [THEN conjunct2, THEN conjunct1, THEN mp, OF h0]
  note r1 = T [THEN conjunct2, THEN conjunct2, THEN conjunct1, THEN mp, OF h3]
  note r2 = T [THEN conjunct2, THEN conjunct2, THEN conjunct2, THEN mp, OF conjI [OF h1 h2]]
  from r1 have r3: "fst (find_best_match_combined ?sc ''t'' [] [(''a1'', ''n'', 1::nat), (''a2'', ''n'', 2)]) \<noteq> None"
    by auto
  show ?thesis
    using r0 r2 [THEN conjunct1] r2 [THEN conjunct2] r3
    by (intro conjI)
qed

section \<open>Fallback never lowers the score\<close>

text \<open>
  Claim C10. The bucket scanned by the state-filtered phase is part of the list scanned by the
  fallback phase, so the fallback's best score is at least the state-filtered one; this holds
  in particular whenever the fallback runs, and the score that \<open>resolve\<close> returns is never
  below the state-filtered score.
\<close>

theorem fallback_score_not_below_filtered:
  "(fst (state_filtered_phase sc idx tstate addr fac) = None
      \<or> snd (state_filtered_phase sc idx tstate addr fac) < match_threshold
    \<longrightarrow> snd (state_filtered_phase sc idx tstate addr fac) \<le> snd (fallback_phase sc idx addr fac))
   \<and> snd (state_filtered_phase sc idx tstate addr fac) \<le> snd (resolve sc idx tstate addr fac)"
  using filtered_le_fallback [of sc idx tstate addr fac]
  by (auto simp: resolve_def split: prod.splits)

theorem fallback_score_not_below_filtered_witness:
  "snd (state_filtered_phase (RapidFuzz (table_ratio [((''t'', ''a1''), 40), ((''t'', ''a2''), 30)]))
       [(''TX'', [(''a1'', ''n'', 1::nat)]), (NO_STATE, [(''a2'', ''n'', 2)])] (Some ''TX'') ''t'' [])
     < match_threshold
   \<and> snd (state_filtered_phase (RapidFuzz (table_ratio [((''t'', ''a1''), 40), ((''t'', ''a2''), 30)]))
       [(''TX'', [(''a1'', ''n'', 1::nat)]), (NO_STATE, [(''a2'', ''n'', 2)])] (Some ''TX'') ''t'' [])
     \<le> snd (fallback_phase (RapidFuzz (table_ratio [((''t'', ''a1''), 40), ((''t'', ''a2''), 30)]))
       [(''TX'', [(''a1'', ''n'', 1::nat)]), (NO_STATE, [(''a2'', ''n'', 2)])] ''t'' [])"
proof -
  let ?sc = "RapidFuzz (table_ratio [((''t'', ''a1''), 40), ((''t'', ''a2''), 30)])"
  let ?idx = "[(''TX'', [(''a1'', ''n'', 1::nat)]), (NO_STATE, [(''a2'', ''n'', 2)])]"
  have low: "snd (state_filtered_phase ?sc ?idx (Some ''TX'') ''t'' []) < match_threshold"
    by (simp add: state_filtered_phase_def find_best_match_combined_def
        combined_similarity_score_def table_ratio_def match_threshold_def)
  note T = fallback_score_not_below_filtered [of ?sc ?idx "Some ''TX''" "''t''" "[]"]
  from T [THEN conjunct1, THEN mp, OF disjI2, OF low] low
  show ?thesis by (intro conjI)
qed

section \<open>The fallback phase\<close>

lemma mset_bucket_append:
  "mset (all_candidates (bucket_append key c idx)) = add_mset c (mset (all_candidates idx))"
  by (induction idx) (auto simp: all_candidates_def)

lemma mset_index_candidate:
  "mset (all_candidates (index_candidate idx c))
     = (if fst c \<noteq> [] then add_mset c (mset (all_candidates idx)) else mset (all_candidates idx))"
  by (cases c) (simp add: index_candidate_def mset_bucket_append split: option.splits)

lemma mset_foldl_index_candidate:
  "mset (all_candidates (foldl index_candidate idx rows))
     = mset (all_candidates idx) + mset (filter (\<lambda>c. fst c \<noteq> []) rows)"
  by (induction rows arbitrary: idx) (simp_all add: mset_index_candidate)

lemma mset_build_index:
  "mset (all_candidates (build_index rows)) = mset (filter (\<lambda>c. fst c \<noteq> []) rows)"
  using mset_foldl_index_candidate [of "[]" rows] by (simp add: build_index_def all_candidates_def)

text \<open>
  Claim C2. For a state-bucketed system, \<open>resolve\<close> runs the fallback phase exactly when
  the state-filtered phase returned no candidate or a score below 0.5, and then returns the
  fallback's result instead of the state-filtered one. The fallback scans the concatenation of
  all buckets of the index, which is the union of the buckets of every key, the one of the
  sentinel \<open>__NO_STATE__\<close> included; for an index built by \<open>build_index\<close> these are
  exactly the rows that have an address.
\<close>

theorem fallback_runs_on_miss_or_low_score:
  "resolve sc idx tstate addr fac
     = (if fst (state_filtered_phase sc idx tstate addr fac) = None
           \<or> snd (state_filtered_phase sc idx tstate addr fac) < 0.5
        then fallback_phase sc idx addr fac
        else state_filtered_phase sc idx tstate addr fac)
   \<and> fallback_phase sc idx addr fac
       = find_best_match_combined sc addr fac (concat (map snd idx))
   \<and> set (concat (map snd idx)) = (\<Union>(key, bucket)\<in>set idx. set bucket)
   \<and> (\<forall>bucket. map_of idx NO_STATE = Some bucket \<longrightarrow> set bucket \<subseteq> set (concat (map snd idx)))
   \<and> mset (concat (map snd (build_index rows))) = mset (filter (\<lambda>c. fst c \<noteq> []) rows)"
proof -
  have "resolve sc idx tstate addr fac
     = (if fst (state_filtered_phase sc idx tstate addr fac) = None
           \<or> snd (state_filtered_phase sc idx tstate addr fac) < 0.5
        then fallback_phase sc idx addr fac
        else state_filtered_phase sc idx tstate addr fac)"
    by (simp add: resolve_def match_threshold_def split: prod.splits)
  moreover have "fallback_phase sc idx addr fac
       = find_best_match_combined sc addr fac (concat (map snd idx))"
    by (simp add: fallback_phase_def all_candidates_def)
  moreover have "set (concat (map snd idx)) = (\<Union>(key, bucket)\<in>set idx. set bucket)"
    by auto
  moreover have "\<forall>bucket. map_of idx NO_STATE = Some bucket \<longrightarrow> set bucket \<subseteq> set (concat (map snd idx))"
    by (auto dest!: map_of_SomeD)
  moreover have "mset (concat (map snd (build_index rows))) = mset (filter (\<lambda>c. fst c \<noteq> []) rows)"
    using mset_build_index [of rows] by (simp add: all_candidates_def)
  ultimately show ?thesis by blast
qed


theorem fallback_runs_on_miss_or_low_score_witness:
  "state_filtered_phase (RapidFuzz (table_ratio [((''t'', ''a1''), 40), ((''t'', ''a2''), 30)]))
       [(''TX'', [(''a1'', ''n'', 1::nat)]), (NO_STATE, [(''a2'', ''n'', 2)])] (Some ''TX'') ''t'' []
     = (Some 1, 0.4)
   \<and> resolve (RapidFuzz (table_ratio [((''t'', ''a1''), 40), ((''t'', ''a2''), 30)]))
       [(''TX'', [(''a1'', ''n'', 1::nat)]), (NO_STATE, [(''a2'', ''n'', 2)])] (Some ''TX'') ''t'' []
     = fallback_phase (RapidFuzz (table_ratio [((''t'', ''a1''), 40), ((''t'', ''a2''), 30)]))
       [(''TX'', [(''a1'', ''n'', 1::nat)]), (NO_STATE, [(''a2'', ''n'', 2)])] ''t'' []
   \<and> map_of [(''TX'', [(''a1'', ''n'', 1::nat)]), (NO_STATE, [(''a2'', ''n'', 2)])] NO_STATE
     = Some [(''a2'', ''n'', 2)]
   \<and> set [(''a2'', ''n'', 2::nat)]
     \<subseteq> set (concat (map snd [(''TX'', [(''a1'', ''n'', 1::nat)]), (NO_STATE, [(''a2'', ''n'', 2)])]))"
proof -
  let ?sc = "RapidFuzz (table_ratio [((''t'', ''a1''), 40), ((''t'', ''a2''), 30)])"
  let ?idx = "[(''TX'', [(''a1'', ''n'', 1::nat)]), (NO_STATE, [(''a2'', ''n'', 2)])]"
  have sf: "state_filtered_phase ?sc ?idx (Some ''TX'') ''t'' [] = (Some 1, 0.4)"
    by (simp add: state_filtered_phase_def find_best_match_combined_def
        combined_similarity_score_def table_ratio_def)
  have m: "map_of ?idx NO_STATE = Some [(''a2'', ''n'', 2)]"
    by (simp add: NO_STATE_def)
  note T = fallback_runs_on_miss_or_low_score [of ?sc ?idx "Some ''TX''" "''t''" "[]" "[]"]
  have r: "resolve ?sc ?idx (Some ''TX'') ''t'' [] = fallback_phase ?sc ?idx ''t'' []"
    using T [THEN conjunct1] sf by simp
  have u: "set [(''a2'', ''n'', 2::nat)] \<subseteq> set (concat (map snd ?idx))"
    using T [THEN conjunct2, THEN conjunct2, THEN conjunct2, THEN conjunct1, rule_format, OF m] .
  show ?thesis
    using sf r m u by (intro conjI)
qed

section \<open>Result rows and the threshold\<close>

lemma find_best_none_zero:
  "fst (find_best_match_combined sc ta tf cs) = None \<Longrightarrow> snd (find_best_match_combined sc ta tf cs) = 0"
  using best_match_loop_cases [of sc ta tf cs None 0]
  by (auto simp: find_best_match_combined_def)

lemma resolve_none_zero:
  "fst (resolve sc idx tstate addr fac) = None \<Longrightarrow> snd (resolve sc idx tstate addr fac) = 0"
  by (auto simp: resolve_def fallback_phase_def find_best_none_zero split: prod.splits if_splits)

lemma resolve_accepted_has_match:
  assumes "snd (resolve sc idx tstate addr fac) \<ge> match_threshold"
  shows "\<exists>d. fst (resolve sc idx tstate addr fac) = Some d"
proof (cases "fst (resolve sc idx tstate addr fac)")
  case None
  from resolve_none_zero [OF None] assms show ?thesis
    by (simp add: match_threshold_def)
qed simp

lemma corporations_loop_none:
  "fst (corporations_loop sc fac cs (m, s)) = None
     \<Longrightarrow> m = None \<and> snd (corporations_loop sc fac cs (m, s)) = s"
proof (induction cs arbitrary: m s)
  case Nil
  then show ?case by simp
next
  case (Cons c cs)
  obtain a n d where c: "c = (a, n, d)" by (cases c) auto
  show ?case
  proof (cases "similarity sc fac n > s")
    case True
    with Cons.prems c have "fst (corporations_loop sc fac cs (Some d, similarity sc fac n)) = None"
      by simp
    from Cons.IH [OF this] show ?thesis by simp
  next
    case False
    with Cons.prems c have "fst (corporations_loop sc fac cs (m, s)) = None"
      by simp
    from Cons.IH [OF this] False c show ?thesis by auto
  qed
qed

lemma corporations_accepted_has_match:
  assumes "snd (corporations_loop sc fac cs (None, 0)) \<ge> match_threshold"
  shows "\<exists>d. fst (corporations_loop sc fac cs (None, 0)) = Some d"
proof (cases "fst (corporations_loop sc fac cs (None, 0))")
  case None
  from corporations_loop_none [OF None, THEN conjunct2] assms show ?thesis
    by (simp add: match_threshold_def)
qed simp

lemma resolve_corporations_eq:
  "resolve_corporations sc cs fac =
     (if snd (corporations_loop sc fac cs (None, 0)) \<ge> match_threshold
      then corporations_loop sc fac cs (None, 0) else (None, 0))"
proof (cases cs)
  case Nil
  then show ?thesis by (simp add: resolve_corporations_def match_threshold_def)
next
  case (Cons c cs')
  then show ?thesis
    using corporations_accepted_has_match [of sc fac cs]
    by (auto simp: resolve_corporations_def split: prod.splits)
qed

lemma field_if_accepted_below:
  "score < match_threshold \<Longrightarrow> field_if_accepted m score get blank = blank"
  by (simp add: field_if_accepted_def split: option.splits)

lemma field_if_accepted_at:
  "score \<ge> match_threshold \<Longrightarrow> field_if_accepted (Some d) score get blank = get d"
  by (simp add: field_if_accepted_def)

lemma reported_score_case:
  "reported_score m s = (case m of Some d \<Rightarrow> py_round3 s | None \<Rightarrow> 0)"
  by (simp add: reported_score_def)

lemma py_round3_zero: "py_round3 0 = 0"
  by (simp add: py_round3_def round_half_even_def)

lemma no_candidates_resolve: "resolve sc [] tstate addr fac = (None, 0)"
  by (simp add: resolve_def state_filtered_phase_def fallback_phase_def all_candidates_def
      find_best_match_combined_def split: option.splits)

lemma match_row_fields:
  fixes sc hs_idx cu_idx corp addr fac
  defines "row \<equiv> match_row sc hs_idx cu_idx corp addr fac"
    and "hs \<equiv> resolve sc hs_idx (extract_state_from_address (Some addr)) addr fac"
    and "cu \<equiv> resolve sc cu_idx (extract_state_from_address (Some addr)) addr fac"
    and "best \<equiv> corporations_loop sc fac corp (None, 0)"
  shows
    "(snd hs < match_threshold \<longrightarrow>
        hubspot_company_name row = [] \<and> hubspot_record_id row = Some []
        \<and> hubspot_full_address row = [] \<and> hubspot_parent_company row = [])
     \<and> (snd hs \<ge> match_threshold \<longrightarrow>
          (\<exists>d. fst hs = Some d
             \<and> hubspot_company_name row = data_hubspot_company_name d
             \<and> hubspot_record_id row = data_hubspot_record_id d
             \<and> hubspot_full_address row = data_hubspot_full_address d
             \<and> hubspot_parent_company row = data_hubspot_parent_company d))
     \<and> hubspot_match_score row = (case fst hs of Some d \<Rightarrow> py_round3 (snd hs) | None \<Rightarrow> 0)
     \<and> (snd cu < match_threshold \<longrightarrow>
          clickup_task_name row = [] \<and> clickup_task_location row = []
          \<and> clickup_task_url row = Some [])
     \<and> (snd cu \<ge> match_threshold \<longrightarrow>
          (\<exists>d. fst cu = Some d
             \<and> clickup_task_name row = data_clickup_task_name d
             \<and> clickup_task_location row = data_clickup_task_location d
             \<and> clickup_task_url row = data_clickup_url d))
     \<and> clickup_match_score row = (case fst cu of Some d \<Rightarrow> py_round3 (snd cu) | None \<Rightarrow> 0)
     \<and> (snd best < match_threshold \<longrightarrow>
          corporations_task_name row = [] \<and> corporations_task_location row = []
          \<and> corporations_task_url row = Some [] \<and> corporations_match_score row = 0)
     \<and> (snd best \<ge> match_threshold \<longrightarrow>
          (\<exists>d. fst best = Some d
             \<and> corporations_task_name row = data_corporations_task_name d
             \<and> corporations_task_location row = data_corporations_task_location d
             \<and> corporations_task_url row = data_corporations_task_url d
             \<and> corporations_match_score row = py_round3 (snd best)))"
proof -
  obtain hm hscore where hs_eq: "hs = (hm, hscore)" by (cases hs)
  obtain cm cscore where cu_eq: "cu = (cm, cscore)" by (cases cu)
  obtain bm bscore where best_eq: "best = (bm, bscore)" by (cases best)
  have hs_some: "\<exists>d. hm = Some d" if "hscore \<ge> match_threshold"
    using resolve_accepted_has_match [of sc hs_idx "extract_state_from_address (Some addr)" addr fac]
      that hs_eq by (simp add: hs_def)
  have cu_some: "\<exists>d. cm = Some d" if "cscore \<ge> match_threshold"
    using resolve_accepted_has_match [of sc cu_idx "extract_state_from_address (Some addr)" addr fac]
      that cu_eq by (simp add: cu_def)
  have best_some: "\<exists>d. bm = Some d" if "bscore \<ge> match_threshold"
    using corporations_accepted_has_match [of sc fac corp] that best_eq by (simp add: best_def)
  have corp_eq: "resolve_corporations sc corp fac
      = (if bscore \<ge> match_threshold then (bm, bscore) else (None, 0))"
    using best_eq by (simp add: resolve_corporations_eq best_def)
  have row_eq: "row =
        \<lparr>unique_address = addr,
         facility_name = fac,
         target_state = (case extract_state_from_address (Some addr) of Some st \<Rightarrow> st | None \<Rightarrow> []),
         hubspot_company_name = field_if_accepted hm hscore data_hubspot_company_name [],
         hubspot_record_id = field_if_accepted hm hscore data_hubspot_record_id (Some []),
         hubspot_full_address = field_if_accepted hm hscore data_hubspot_full_address [],
         hubspot_parent_company = field_if_accepted hm hscore data_hubspot_parent_company [],
         hubspot_match_score = reported_score hm hscore,
         clickup_task_name = field_if_accepted cm cscore data_clickup_task_name [],
         clickup_task_location = field_if_accepted cm cscore data_clickup_task_location [],
         clickup_match_score = reported_score cm cscore,
         clickup_task_url = field_if_accepted cm cscore data_clickup_url (Some []),
         corporations_task_name =
           field_if_accepted (fst (resolve_corporations sc corp fac))
             (snd (resolve_corporations sc corp fac)) data_corporations_task_name [],
         corporations_task_location =
           field_if_accepted (fst (resolve_corporations sc corp fac))
             (snd (resolve_corporations sc corp fac)) data_corporations_task_location [],
         corporations_task_url =
           field_if_accepted (fst (resolve_corporations sc corp fac))
             (snd (resolve_corporations sc corp fac)) data_corporations_task_url (Some []),
         corporations_match_score =
           reported_score (fst (resolve_corporations sc corp fac))
             (snd (resolve_corporations sc corp fac))\<rparr>"
    using hs_eq cu_eq
    by (simp add: row_def match_row_def hs_def cu_def Let_def split: prod.splits)
  have hub: "(hscore < match_threshold \<longrightarrow>
        hubspot_company_name row = [] \<and> hubspot_record_id row = Some []
        \<and> hubspot_full_address row = [] \<and> hubspot_parent_company row = [])
     \<and> (hscore \<ge> match_threshold \<longrightarrow>
          (\<exists>d. hm = Some d
             \<and> hubspot_company_name row = data_hubspot_company_name d
             \<and> hubspot_record_id row = data_hubspot_record_id d
             \<and> hubspot_full_address row = data_hubspot_full_address d
             \<and> hubspot_parent_company row = data_hubspot_parent_company d))
     \<and> hubspot_match_score row = (case hm of Some d \<Rightarrow> py_round3 hscore | None \<Rightarrow> 0)"
    using hs_some by (auto simp: row_eq field_if_accepted_below field_if_accepted_at reported_score_case)
  have click: "(cscore < match_threshold \<longrightarrow>
          clickup_task_name row = [] \<and> clickup_task_location row = []
          \<and> clickup_task_url row = Some [])
     \<and> (cscore \<ge> match_threshold \<longrightarrow>
          (\<exists>d. cm = Some d
             \<and> clickup_task_name row = data_clickup_task_name d
             \<and> clickup_task_location row = data_clickup_task_location d
             \<and> clickup_task_url row = data_clickup_url d))
     \<and> clickup_match_score row = (case cm of Some d \<Rightarrow> py_round3 cscore | None \<Rightarrow> 0)"
    using cu_some by (auto simp: row_eq field_if_accepted_below field_if_accepted_at reported_score_case)
  have corpo: "(bscore < match_threshold \<longrightarrow>
          corporations_task_name row = [] \<and> corporations_task_location row = []
          \<and> corporations_task_url row = Some [] \<and> corporations_match_score row = 0)
     \<and> (bscore \<ge> match_threshold \<longrightarrow>
          (\<exists>d. bm = Some d
             \<and> corporations_task_name row = data_corporations_task_name d
             \<and> corporations_task_location row = data_corporations_task_location d
             \<and> corporations_task_url row = data_corporations_task_url d
             \<and> corporations_match_score row = py_round3 bscore))"
    using best_some
    by (auto simp: row_eq corp_eq field_if_accepted_def reported_score_def)
  show ?thesis
    unfolding hs_eq cu_eq best_eq fst_conv snd_conv
    using hub click corpo by (elim conjE, intro conjI) assumption+
qed

lemma find_best_from_list:
  assumes "fst (find_best_match_combined sc ta tf cs) = Some d"
  shows "\<exists>c\<in>set cs. d = snd (snd c)"
proof -
  from best_match_loop_cases [of sc ta tf cs None 0] assms
  obtain i where "i < length cs" "d = snd (snd (cs ! i))"
    unfolding find_best_match_combined_def by auto
  then show ?thesis using nth_mem by blast
qed

lemma resolve_from_index:
  assumes "fst (resolve sc idx tstate addr fac) = Some d"
  shows "\<exists>c\<in>set (all_candidates idx). d = snd (snd c)"
proof (cases "fst (state_filtered_phase sc idx tstate addr fac) = None
    \<or> snd (state_filtered_phase sc idx tstate addr fac) < match_threshold")
  case True
  then have "resolve sc idx tstate addr fac = fallback_phase sc idx addr fac"
    by (auto simp: resolve_def split: prod.splits)
  with assms show ?thesis
    by (simp add: fallback_phase_def find_best_from_list)
next
  case False
  then have r: "resolve sc idx tstate addr fac = state_filtered_phase sc idx tstate addr fac"
    by (auto simp: resolve_def split: prod.splits)
  with assms have s: "fst (state_filtered_phase sc idx tstate addr fac) = Some d" by simp
  then obtain st bucket where b: "map_of idx st = Some bucket"
    "state_filtered_phase sc idx tstate addr fac = find_best_match_combined sc addr fac bucket"
    by (auto simp: state_filtered_phase_def split: option.splits if_splits)
  with s find_best_from_list [of sc addr fac bucket d] bucket_subset_all [OF b(1)]
  show ?thesis by auto
qed

lemma build_index_candidates:
  assumes "c \<in> set (all_candidates (build_index rows))"
  shows "c \<in> set rows \<and> fst c \<noteq> []"
proof -
  from assms have "c \<in># mset (all_candidates (build_index rows))" by simp
  then have "c \<in># mset (filter (\<lambda>c. fst c \<noteq> []) rows)"
    by (simp only: mset_build_index)
  then show ?thesis by simp
qed

lemma hubspot_index_address:
  assumes "c \<in> set (all_candidates (hubspot_index rows))"
  shows "data_hubspot_full_address (snd (snd c)) \<noteq> []"
proof -
  from build_index_candidates [OF assms [unfolded hubspot_index_def]]
  show ?thesis by (auto simp: hubspot_candidate_def)
qed

lemma clickup_index_location:
  assumes "c \<in> set (all_candidates (clickup_index rows))"
  shows "data_clickup_task_location (snd (snd c)) \<noteq> []"
proof -
  from build_index_candidates [OF assms [unfolded clickup_index_def]]
  show ?thesis by (auto simp: clickup_candidate_def)
qed

lemma corporations_index_fields:
  assumes "c \<in> set (corporations_index rows)"
  shows "data_corporations_task_location (snd (snd c)) = []
    \<and> data_corporations_task_name (snd (snd c)) \<noteq> []"
  using assms by (auto simp: corporations_index_def corporations_candidate_def)

lemma corporations_loop_from_list:
  "fst (corporations_loop sc fac cs (m, s)) = Some d
     \<Longrightarrow> m = Some d \<or> (\<exists>c\<in>set cs. d = snd (snd c))"
proof (induction cs arbitrary: m s)
  case Nil
  then show ?case by simp
next
  case (Cons c cs)
  obtain a n x where c: "c = (a, n, x)" by (cases c) auto
  show ?case
  proof (cases "similarity sc fac n > s")
    case True
    with Cons.prems c have "fst (corporations_loop sc fac cs (Some x, similarity sc fac n)) = Some d"
      by simp
    from Cons.IH [OF this] c show ?thesis by auto
  next
    case False
    with Cons.prems c have "fst (corporations_loop sc fac cs (m, s)) = Some d"
      by simp
    from Cons.IH [OF this] show ?thesis by auto
  qed
qed

lemma round_half_even_nearest:
  "\<bar>y - of_int (round_half_even y)\<bar> \<le> 1 / 2
     \<and> (\<bar>y - of_int (round_half_even y)\<bar> = 1 / 2 \<longrightarrow> even (round_half_even y))"
proof -
  define f where "f = \<lfloor>y\<rfloor>"
  define d where "d = y - of_int f"
  have d: "0 \<le> d" "d < 1"
    unfolding d_def f_def by linarith+
  have y: "y = of_int f + d" by (simp add: d_def)
  have r: "round_half_even y
      = (if d < 1 / 2 then f else if d > 1 / 2 then f + 1 else if even f then f else f + 1)"
    unfolding round_half_even_def Let_def f_def [symmetric] d_def [symmetric] ..
  consider "d < 1 / 2" | "d > 1 / 2" | "d = 1 / 2 \<and> even f" | "d = 1 / 2 \<and> odd f"
    by fastforce
  then show ?thesis
  proof cases
    case 1
    with r have "round_half_even y = f" by simp
    moreover have "y - of_int f = d" by (simp add: d_def)
    ultimately show ?thesis using 1 d by simp
  next
    case 2
    with r have "round_half_even y = f + 1" by simp
    moreover have "y - of_int (f + 1) = d - 1" by (simp add: d_def)
    ultimately show ?thesis using 2 d by simp
  next
    case 3
    with r have "round_half_even y = f" by simp
    moreover have "y - of_int f = d" by (simp add: d_def)
    ultimately show ?thesis using 3 by simp
  next
    case 4
    with r have "round_half_even y = f + 1" by simp
    moreover have "y - of_int (f + 1) = d - 1" by (simp add: d_def)
    ultimately show ?thesis using 4 by simp
  qed
qed

lemma py_round3_nearest:
  "\<exists>k. py_round3 x = of_int k / 1000 \<and> \<bar>x - of_int k / 1000\<bar> \<le> 1 / 2000
       \<and> (\<bar>x - of_int k / 1000\<bar> = 1 / 2000 \<longrightarrow> even k)"
proof -
  define k where "k = round_half_even (x * 1000)"
  have e: "\<bar>x - of_int k / 1000\<bar> = \<bar>x * 1000 - of_int k\<bar> / 1000"
  proof -
    have "x - of_int k / 1000 = (x * 1000 - of_int k) / 1000" by simp
    then show ?thesis by (simp only: abs_divide)
  qed
  from round_half_even_nearest [of "x * 1000", folded k_def]
  have "\<bar>x - of_int k / 1000\<bar> \<le> 1 / 2000
      \<and> (\<bar>x - of_int k / 1000\<bar> = 1 / 2000 \<longrightarrow> even k)"
    unfolding e by auto
  then show ?thesis
    by (intro exI [of _ k]) (simp add: py_round3_def k_def)
qed

lemmas sample_defs = sample_target_def sample_facility_def sample_scorer_def
  sample_corporations_far_rows_def sample_corporations_near_rows_def

lemma sample_indices:
  "hubspot_index sample_hubspot_rows
     = [(''TX'', [hubspot_candidate (Some ''101'') ''Oak Facility Inc''
                   ''100 Oak Avenue, Austin, TX 78701'' ''Oak Group''])]"
  "clickup_index sample_clickup_rows
     = [(''TX'', [clickup_candidate (Some ''86a2vwzc1'') ''Oak Facility Inc''
                   ''100 Oak Avenue, Austin, TX 78701''
                   (Some ''https://app.clickup.com/t/86a2vwzc1'')])]"
  "hubspot_index sample_nameless_hubspot_rows
     = [(''TX'', [hubspot_candidate None [] ''100 Oak Avenue, Austin, TX 78701'' []])]"
  "clickup_index sample_nameless_clickup_rows
     = [(''TX'', [clickup_candidate None [] ''100 Oak Avenue, Austin, TX 78701'' None])]"
  "hubspot_index [] = []"
  "clickup_index [] = []"
  by code_simp+

lemma sample_target_state:
  "extract_state_from_address (Some ''100 Oak Ave, Austin, TX 78701'') = Some ''TX''"
  by code_simp

text \<open>
  Claim C3 as stated fails in three ways. For the Corporations list, with the single task
  \<open>acme\<close> and facility \<open>acme\<close> the score column is 1, above the threshold, and the
  location field of the row is blank, as it is in every Corporations candidate; and with the
  single task \<open>axxx\<close> and facility \<open>abcd\<close> (ratio 25) a best candidate exists with score
  0.25, which rounds to 0.25, and the score column reports 0. For HubSpot and ClickUp, a
  company and a task without a name at the address of the sample target are accepted with
  score 0.9, and the name, the parent company, the record identifier and the URL of the row
  are blank or null.
\<close>

theorem blank_fields_counterexample:
  "corporations_match_score
      (match_row (RapidFuzz (table_ratio [((''acme'', ''acme''), 100)])) [] []
         (corporations_index [(Some ''86a2vwzc1'', ''acme'', Some ''https://app.clickup.com/t/86a2vwzc1'')])
         ''1 main st'' ''acme'') = 1
   \<and> corporations_task_location
      (match_row (RapidFuzz (table_ratio [((''acme'', ''acme''), 100)])) [] []
         (corporations_index [(Some ''86a2vwzc1'', ''acme'', Some ''https://app.clickup.com/t/86a2vwzc1'')])
         ''1 main st'' ''acme'') = []
   \<and> fst (corporations_loop (RapidFuzz (table_ratio [((''abcd'', ''axxx''), 25)])) ''abcd''
         (corporations_index [(Some ''86a2vwzc1'', ''axxx'', Some ''https://app.clickup.com/t/86a2vwzc1'')])
         (None, 0)) \<noteq> None
   \<and> snd (corporations_loop (RapidFuzz (table_ratio [((''abcd'', ''axxx''), 25)])) ''abcd''
         (corporations_index [(Some ''86a2vwzc1'', ''axxx'', Some ''https://app.clickup.com/t/86a2vwzc1'')])
         (None, 0)) = 0.25
   \<and> py_round3 0.25 = 0.25
   \<and> corporations_match_score
      (match_row (RapidFuzz (table_ratio [((''abcd'', ''axxx''), 25)])) [] []
         (corporations_index [(Some ''86a2vwzc1'', ''axxx'', Some ''https://app.clickup.com/t/86a2vwzc1'')])
         ''1 main st'' ''abcd'') = 0
   \<and> hubspot_match_score (match_row sample_scorer (hubspot_index sample_nameless_hubspot_rows) (clickup_index sample_nameless_clickup_rows) (corporations_index []) sample_target sample_facility) = 0.9
   \<and> hubspot_company_name (match_row sample_scorer (hubspot_index sample_nameless_hubspot_rows) (clickup_index sample_nameless_clickup_rows) (corporations_index []) sample_target sample_facility) = []
   \<and> hubspot_parent_company (match_row sample_scorer (hubspot_index sample_nameless_hubspot_rows) (clickup_index sample_nameless_clickup_rows) (corporations_index []) sample_target sample_facility) = []
   \<and> hubspot_record_id (match_row sample_scorer (hubspot_index sample_nameless_hubspot_rows) (clickup_index sample_nameless_clickup_rows) (corporations_index []) sample_target sample_facility) = None
   \<and> clickup_match_score (match_row sample_scorer (hubspot_index sample_nameless_hubspot_rows) (clickup_index sample_nameless_clickup_rows) (corporations_index []) sample_target sample_facility) = 0.9
   \<and> clickup_task_name (match_row sample_scorer (hubspot_index sample_nameless_hubspot_rows) (clickup_index sample_nameless_clickup_rows) (corporations_index []) sample_target sample_facility) = []
   \<and> clickup_task_url (match_row sample_scorer (hubspot_index sample_nameless_hubspot_rows) (clickup_index sample_nameless_clickup_rows) (corporations_index []) sample_target sample_facility) = None"
proof -
  have corp: "corporations_match_score
      (match_row (RapidFuzz (table_ratio [((''acme'', ''acme''), 100)])) [] []
         (corporations_index [(Some ''86a2vwzc1'', ''acme'', Some ''https://app.clickup.com/t/86a2vwzc1'')])
         ''1 main st'' ''acme'') = 1
   \<and> corporations_task_location
      (match_row (RapidFuzz (table_ratio [((''acme'', ''acme''), 100)])) [] []
         (corporations_index [(Some ''86a2vwzc1'', ''acme'', Some ''https://app.clickup.com/t/86a2vwzc1'')])
         ''1 main st'' ''acme'') = []
   \<and> fst (corporations_loop (RapidFuzz (table_ratio [((''abcd'', ''axxx''), 25)])) ''abcd''
         (corporations_index [(Some ''86a2vwzc1'', ''axxx'', Some ''https://app.clickup.com/t/86a2vwzc1'')])
         (None, 0)) \<noteq> None
   \<and> snd (corporations_loop (RapidFuzz (table_ratio [((''abcd'', ''axxx''), 25)])) ''abcd''
         (corporations_index [(Some ''86a2vwzc1'', ''axxx'', Some ''https://app.clickup.com/t/86a2vwzc1'')])
         (None, 0)) = 0.25
   \<and> py_round3 0.25 = 0.25
   \<and> corporations_match_score
      (match_row (RapidFuzz (table_ratio [((''abcd'', ''axxx''), 25)])) [] []
         (corporations_index [(Some ''86a2vwzc1'', ''axxx'', Some ''https://app.clickup.com/t/86a2vwzc1'')])
         ''1 main st'' ''abcd'') = 0"
    by (simp add: match_row_def no_candidates_resolve resolve_corporations_def
        corporations_index_def corporations_candidate_def table_ratio_def match_threshold_def
        field_if_accepted_def reported_score_def py_round3_def round_half_even_def Let_def)
  have nameless: "hubspot_match_score (match_row sample_scorer (hubspot_index sample_nameless_hubspot_rows) (clickup_index sample_nameless_clickup_rows) (corporations_index []) sample_target sample_facility) = 0.9
   \<and> hubspot_company_name (match_row sample_scorer (hubspot_index sample_nameless_hubspot_rows) (clickup_index sample_nameless_clickup_rows) (corporations_index []) sample_target sample_facility) = []
   \<and> hubspot_parent_company (match_row sample_scorer (hubspot_index sample_nameless_hubspot_rows) (clickup_index sample_nameless_clickup_rows) (corporations_index []) sample_target sample_facility) = []
   \<and> hubspot_record_id (match_row sample_scorer (hubspot_index sample_nameless_hubspot_rows) (clickup_index sample_nameless_clickup_rows) (corporations_index []) sample_target sample_facility) = None
   \<and> clickup_match_score (match_row sample_scorer (hubspot_index sample_nameless_hubspot_rows) (clickup_index sample_nameless_clickup_rows) (corporations_index []) sample_target sample_facility) = 0.9
   \<and> clickup_task_name (match_row sample_scorer (hubspot_index sample_nameless_hubspot_rows) (clickup_index sample_nameless_clickup_rows) (corporations_index []) sample_target sample_facility) = []
   \<and> clickup_task_url (match_row sample_scorer (hubspot_index sample_nameless_hubspot_rows) (clickup_index sample_nameless_clickup_rows) (corporations_index []) sample_target sample_facility) = None"
    by (simp add: match_row_def sample_indices sample_target_state resolve_corporations_def
        corporations_index_def sample_defs resolve_def state_filtered_phase_def fallback_phase_def all_candidates_def
        find_best_match_combined_def combined_similarity_score_def hubspot_candidate_def
        clickup_candidate_def table_ratio_def match_threshold_def field_if_accepted_def
        reported_score_def py_round3_def round_half_even_def Let_def)
  from corp nameless show ?thesis
    by (elim conjE, intro conjI) assumption+
qed

text \<open>
  Claim C3, amended. In a row matched against indices built from source rows: for HubSpot
  and for ClickUp, the address field of the system (\<open>hubspot_full_address\<close>,
  \<open>clickup_task_location\<close>) is non-blank if and only if the final best score of the system
  is at least 0.5, and the other fields of the system are blank when the score is below 0.5
  and are those of the best candidate, which may be blank themselves, when it is at least
  0.5; the score column is the best score rounded to three decimals whenever a best candidate
  exists, also below the threshold, and 0 when none exists. For the Corporations list the
  best candidate is kept only at a score of at least 0.5: the task name is non-blank if and
  only if the best score is at least 0.5, the location is always blank, and the URL and the
  score column are blank and 0 below 0.5 and the candidate's URL and the rounded best score
  from 0.5 on. Rounding to three decimals gives the nearest multiple of one thousandth, the
  even one at a tie.
\<close>

theorem row_fields_follow_threshold:
  fixes sc hs_rows cu_rows corp_rows addr fac x
  defines "row \<equiv> match_row sc (hubspot_index hs_rows) (clickup_index cu_rows)
      (corporations_index corp_rows) addr fac"
    and "hs \<equiv> resolve sc (hubspot_index hs_rows) (extract_state_from_address (Some addr)) addr fac"
    and "cu \<equiv> resolve sc (clickup_index cu_rows) (extract_state_from_address (Some addr)) addr fac"
    and "best \<equiv> corporations_loop sc fac (corporations_index corp_rows) (None, 0)"
  shows
    "(hubspot_full_address row \<noteq> [] \<longleftrightarrow> snd hs \<ge> match_threshold)
     \<and> (snd hs < match_threshold \<longrightarrow>
          hubspot_company_name row = [] \<and> hubspot_record_id row = Some []
          \<and> hubspot_parent_company row = [])
     \<and> (snd hs \<ge> match_threshold \<longrightarrow>
          (\<exists>d. fst hs = Some d
             \<and> hubspot_company_name row = data_hubspot_company_name d
             \<and> hubspot_record_id row = data_hubspot_record_id d
             \<and> hubspot_full_address row = data_hubspot_full_address d
             \<and> hubspot_parent_company row = data_hubspot_parent_company d))
     \<and> hubspot_match_score row = (case fst hs of Some d \<Rightarrow> py_round3 (snd hs) | None \<Rightarrow> 0)
     \<and> (clickup_task_location row \<noteq> [] \<longleftrightarrow> snd cu \<ge> match_threshold)
     \<and> (snd cu < match_threshold \<longrightarrow>
          clickup_task_name row = [] \<and> clickup_task_url row = Some [])
     \<and> (snd cu \<ge> match_threshold \<longrightarrow>
          (\<exists>d. fst cu = Some d
             \<and> clickup_task_name row = data_clickup_task_name d
             \<and> clickup_task_location row = data_clickup_task_location d
             \<and> clickup_task_url row = data_clickup_url d))
     \<and> clickup_match_score row = (case fst cu of Some d \<Rightarrow> py_round3 (snd cu) | None \<Rightarrow> 0)
     \<and> (corporations_task_name row \<noteq> [] \<longleftrightarrow> snd best \<ge> match_threshold)
     \<and> corporations_task_location row = []
     \<and> (snd best < match_threshold \<longrightarrow>
          corporations_task_url row = Some [] \<and> corporations_match_score row = 0)
     \<and> (snd best \<ge> match_threshold \<longrightarrow>
          (\<exists>d. fst best = Some d
             \<and> corporations_task_name row = data_corporations_task_name d
             \<and> corporations_task_url row = data_corporations_task_url d
             \<and> corporations_match_score row = py_round3 (snd best)))
     \<and> (\<exists>k. py_round3 x = of_int k / 1000 \<and> \<bar>x - of_int k / 1000\<bar> \<le> 1 / 2000
            \<and> (\<bar>x - of_int k / 1000\<bar> = 1 / 2000 \<longrightarrow> even k))
     \<and> match_threshold = 0.5"
proof -
  note G = match_row_fields [where sc = sc and hs_idx = "hubspot_index hs_rows"
      and cu_idx = "clickup_index cu_rows" and corp = "corporations_index corp_rows"
      and addr = addr and fac = fac, folded row_def hs_def cu_def best_def]
  note G1 = G [THEN conjunct1]
  note G2 = G [THEN conjunct2, THEN conjunct1]
  note G3 = G [THEN conjunct2, THEN conjunct2, THEN conjunct1]
  note G4 = G [THEN conjunct2, THEN conjunct2, THEN conjunct2, THEN conjunct1]
  note G5 = G [THEN conjunct2, THEN conjunct2, THEN conjunct2, THEN conjunct2, THEN conjunct1]
  note G6 = G [THEN conjunct2, THEN conjunct2, THEN conjunct2, THEN conjunct2, THEN conjunct2,
      THEN conjunct1]
  note G7 = G [THEN conjunct2, THEN conjunct2, THEN conjunct2, THEN conjunct2, THEN conjunct2,
      THEN conjunct2, THEN conjunct1]
  note G8 = G [THEN conjunct2, THEN conjunct2, THEN conjunct2, THEN conjunct2, THEN conjunct2,
      THEN conjunct2, THEN conjunct2]
  have hs_addr: "data_hubspot_full_address d \<noteq> []" if "fst hs = Some d" for d
    using resolve_from_index [OF that [unfolded hs_def]] hubspot_index_address by blast
  have cu_loc: "data_clickup_task_location d \<noteq> []" if "fst cu = Some d" for d
    using resolve_from_index [OF that [unfolded cu_def]] clickup_index_location by blast
  have corp_d: "data_corporations_task_location d = [] \<and> data_corporations_task_name d \<noteq> []"
    if "fst best = Some d" for d
    using corporations_loop_from_list [OF that [unfolded best_def]] corporations_index_fields
    by blast
  have a: "hubspot_full_address row \<noteq> [] \<longleftrightarrow> snd hs \<ge> match_threshold"
  proof (cases "snd hs \<ge> match_threshold")
    case True
    with G2 hs_addr show ?thesis by auto
  next
    case False
    with G1 show ?thesis by auto
  qed
  have b: "clickup_task_location row \<noteq> [] \<longleftrightarrow> snd cu \<ge> match_threshold"
  proof (cases "snd cu \<ge> match_threshold")
    case True
    with G5 cu_loc show ?thesis by auto
  next
    case False
    with G4 show ?thesis by auto
  qed
  have c: "(corporations_task_name row \<noteq> [] \<longleftrightarrow> snd best \<ge> match_threshold)
      \<and> corporations_task_location row = []"
  proof (cases "snd best \<ge> match_threshold")
    case True
    with G8 corp_d show ?thesis by auto
  next
    case False
    with G7 show ?thesis by auto
  qed
  have h1: "snd hs < match_threshold \<longrightarrow>
          hubspot_company_name row = [] \<and> hubspot_record_id row = Some []
          \<and> hubspot_parent_company row = []"
    using G1 by blast
  have c1: "snd cu < match_threshold \<longrightarrow>
          clickup_task_name row = [] \<and> clickup_task_url row = Some []"
    using G4 by blast
  have b1: "snd best < match_threshold \<longrightarrow>
          corporations_task_url row = Some [] \<and> corporations_match_score row = 0"
    using G7 by blast
  have b2: "snd best \<ge> match_threshold \<longrightarrow>
          (\<exists>d. fst best = Some d
             \<and> corporations_task_name row = data_corporations_task_name d
             \<and> corporations_task_url row = data_corporations_task_url d
             \<and> corporations_match_score row = py_round3 (snd best))"
    using G8 by blast
  from a h1 G2 G3 b c1 G5 G6 c [THEN conjunct1] c [THEN conjunct2] b1 b2 py_round3_nearest [of x]
    match_threshold_def
  show ?thesis by (intro conjI)
qed

theorem row_fields_follow_threshold_witness:
  "(hubspot_full_address (match_row sample_scorer (hubspot_index sample_hubspot_rows) (clickup_index []) (corporations_index sample_corporations_far_rows) sample_target sample_facility) = ''100 Oak Avenue, Austin, TX 78701'') \<and>
   (hubspot_company_name (match_row sample_scorer (hubspot_index sample_hubspot_rows) (clickup_index []) (corporations_index sample_corporations_far_rows) sample_target sample_facility) = ''Oak Facility Inc'') \<and>
   (hubspot_match_score (match_row sample_scorer (hubspot_index sample_hubspot_rows) (clickup_index []) (corporations_index sample_corporations_far_rows) sample_target sample_facility) = 0.94) \<and>
   (clickup_task_location (match_row sample_scorer (hubspot_index sample_hubspot_rows) (clickup_index []) (corporations_index sample_corporations_far_rows) sample_target sample_facility) = []) \<and>
   (clickup_task_name (match_row sample_scorer (hubspot_index sample_hubspot_rows) (clickup_index []) (corporations_index sample_corporations_far_rows) sample_target sample_facility) = []) \<and>
   (corporations_task_name (match_row sample_scorer (hubspot_index sample_hubspot_rows) (clickup_index []) (corporations_index sample_corporations_far_rows) sample_target sample_facility) = []) \<and>
   (corporations_task_location (match_row sample_scorer (hubspot_index sample_hubspot_rows) (clickup_index []) (corporations_index sample_corporations_far_rows) sample_target sample_facility) = []) \<and>
   (corporations_match_score (match_row sample_scorer (hubspot_index sample_hubspot_rows) (clickup_index []) (corporations_index sample_corporations_far_rows) sample_target sample_facility) = 0) \<and>
   (hubspot_full_address (match_row sample_scorer (hubspot_index []) (clickup_index sample_clickup_rows) (corporations_index sample_corporations_near_rows) sample_target sample_facility) = []) \<and>
   (hubspot_company_name (match_row sample_scorer (hubspot_index []) (clickup_index sample_clickup_rows) (corporations_index sample_corporations_near_rows) sample_target sample_facility) = []) \<and>
   (clickup_task_location (match_row sample_scorer (hubspot_index []) (clickup_index sample_clickup_rows) (corporations_index sample_corporations_near_rows) sample_target sample_facility) = ''100 Oak Avenue, Austin, TX 78701'') \<and>
   (clickup_task_name (match_row sample_scorer (hubspot_index []) (clickup_index sample_clickup_rows) (corporations_index sample_corporations_near_rows) sample_target sample_facility) = ''Oak Facility Inc'') \<and>
   (corporations_task_name (match_row sample_scorer (hubspot_index []) (clickup_index sample_clickup_rows) (corporations_index sample_corporations_near_rows) sample_target sample_facility) = ''Oak Facility Group'') \<and>
   (corporations_match_score (match_row sample_scorer (hubspot_index []) (clickup_index sample_clickup_rows) (corporations_index sample_corporations_near_rows) sample_target sample_facility) = 1) \<and>
   (py_round3 (1 / 2000) = 0)"
proof -
  note idx = sample_indices
  have ts: "extract_state_from_address (Some ''100 Oak Ave, Austin, TX 78701'') = Some ''TX''"
    by (rule sample_target_state)
  note A = row_fields_follow_threshold [where sc = sample_scorer and hs_rows = sample_hubspot_rows and cu_rows = "[]"
      and corp_rows = sample_corporations_far_rows and addr = sample_target
      and fac = sample_facility and x = "1 / 2000"]
  note B = row_fields_follow_threshold [where sc = sample_scorer and hs_rows = "[]" and cu_rows = sample_clickup_rows
      and corp_rows = sample_corporations_near_rows and addr = sample_target
      and fac = sample_facility and x = "1 / 2000"]
  have hA: "match_threshold \<le> snd (resolve sample_scorer (hubspot_index sample_hubspot_rows) (extract_state_from_address (Some sample_target)) sample_target sample_facility)"
    by (simp add: ts idx sample_defs resolve_def state_filtered_phase_def fallback_phase_def
        all_candidates_def find_best_match_combined_def combined_similarity_score_def
        hubspot_candidate_def clickup_candidate_def corporations_index_def
        corporations_candidate_def table_ratio_def match_threshold_def)
  have lA: "snd (resolve sample_scorer (clickup_index []) (extract_state_from_address (Some sample_target)) sample_target sample_facility) < match_threshold"
    by (simp add: ts idx sample_defs resolve_def state_filtered_phase_def fallback_phase_def
        all_candidates_def find_best_match_combined_def combined_similarity_score_def
        hubspot_candidate_def clickup_candidate_def corporations_index_def
        corporations_candidate_def table_ratio_def match_threshold_def)
  have bA: "snd (corporations_loop sample_scorer sample_facility (corporations_index sample_corporations_far_rows) (None, 0)) < match_threshold"
    by (simp add: ts idx sample_defs resolve_def state_filtered_phase_def fallback_phase_def
        all_candidates_def find_best_match_combined_def combined_similarity_score_def
        hubspot_candidate_def clickup_candidate_def corporations_index_def
        corporations_candidate_def table_ratio_def match_threshold_def)
  have hB: "snd (resolve sample_scorer (hubspot_index []) (extract_state_from_address (Some sample_target)) sample_target sample_facility) < match_threshold"
    by (simp add: ts idx sample_defs resolve_def state_filtered_phase_def fallback_phase_def
        all_candidates_def find_best_match_combined_def combined_similarity_score_def
        hubspot_candidate_def clickup_candidate_def corporations_index_def
        corporations_candidate_def table_ratio_def match_threshold_def)
  have lB: "match_threshold \<le> snd (resolve sample_scorer (clickup_index sample_clickup_rows) (extract_state_from_address (Some sample_target)) sample_target sample_facility)"
    by (simp add: ts idx sample_defs resolve_def state_filtered_phase_def fallback_phase_def
        all_candidates_def find_best_match_combined_def combined_similarity_score_def
        hubspot_candidate_def clickup_candidate_def corporations_index_def
        corporations_candidate_def table_ratio_def match_threshold_def)
  have bB: "match_threshold \<le> snd (corporations_loop sample_scorer sample_facility (corporations_index sample_corporations_near_rows) (None, 0))"
    by (simp add: ts idx sample_defs resolve_def state_filtered_phase_def fallback_phase_def
        all_candidates_def find_best_match_combined_def combined_similarity_score_def
        hubspot_candidate_def clickup_candidate_def corporations_index_def
        corporations_candidate_def table_ratio_def match_threshold_def)
  have fA: "\<And>d. fst (resolve sample_scorer (hubspot_index sample_hubspot_rows) (extract_state_from_address (Some sample_target)) sample_target sample_facility) = Some d
      \<Longrightarrow> data_hubspot_company_name d = ''Oak Facility Inc''
        \<and> data_hubspot_full_address d = ''100 Oak Avenue, Austin, TX 78701''"
    by (simp add: ts idx sample_defs resolve_def state_filtered_phase_def fallback_phase_def
        all_candidates_def find_best_match_combined_def combined_similarity_score_def
        hubspot_candidate_def table_ratio_def match_threshold_def split: if_splits)
  have sA: "(case fst (resolve sample_scorer (hubspot_index sample_hubspot_rows) (extract_state_from_address (Some sample_target)) sample_target sample_facility)
             of Some d \<Rightarrow> py_round3 (snd (resolve sample_scorer (hubspot_index sample_hubspot_rows) (extract_state_from_address (Some sample_target)) sample_target sample_facility))
              | None \<Rightarrow> 0) = 0.94"
    by (simp add: ts idx sample_defs resolve_def state_filtered_phase_def fallback_phase_def
        all_candidates_def find_best_match_combined_def combined_similarity_score_def
        hubspot_candidate_def table_ratio_def match_threshold_def py_round3_def
        round_half_even_def)
  have fB: "\<And>d. fst (resolve sample_scorer (clickup_index sample_clickup_rows) (extract_state_from_address (Some sample_target)) sample_target sample_facility) = Some d
      \<Longrightarrow> data_clickup_task_name d = ''Oak Facility Inc''
        \<and> data_clickup_task_location d = ''100 Oak Avenue, Austin, TX 78701''"
    by (simp add: ts idx sample_defs resolve_def state_filtered_phase_def fallback_phase_def
        all_candidates_def find_best_match_combined_def combined_similarity_score_def
        clickup_candidate_def table_ratio_def match_threshold_def split: if_splits)
  have gB: "\<And>d. fst (corporations_loop sample_scorer sample_facility (corporations_index sample_corporations_near_rows) (None, 0)) = Some d
      \<Longrightarrow> data_corporations_task_name d = ''Oak Facility Group''"
    by (simp add: sample_defs corporations_index_def corporations_candidate_def table_ratio_def
        split: if_splits)
  have sB: "py_round3 (snd (corporations_loop sample_scorer sample_facility (corporations_index sample_corporations_near_rows) (None, 0))) = 1"
    by (simp add: sample_defs corporations_index_def corporations_candidate_def table_ratio_def
        py_round3_def round_half_even_def)
  have cA1: "hubspot_full_address (match_row sample_scorer (hubspot_index sample_hubspot_rows) (clickup_index []) (corporations_index sample_corporations_far_rows) sample_target sample_facility) = ''100 Oak Avenue, Austin, TX 78701''"
    using A [THEN conjunct2, THEN conjunct2, THEN conjunct1, THEN mp, OF hA] fA by auto
  have cA3: "hubspot_company_name (match_row sample_scorer (hubspot_index sample_hubspot_rows) (clickup_index []) (corporations_index sample_corporations_far_rows) sample_target sample_facility) = ''Oak Facility Inc''"
    using A [THEN conjunct2, THEN conjunct2, THEN conjunct1, THEN mp, OF hA] fA by auto
  have cA4: "hubspot_match_score (match_row sample_scorer (hubspot_index sample_hubspot_rows) (clickup_index []) (corporations_index sample_corporations_far_rows) sample_target sample_facility) = 0.94"
    using A [THEN conjunct2, THEN conjunct2, THEN conjunct2, THEN conjunct1] sA by simp
  have cA5: "clickup_task_location (match_row sample_scorer (hubspot_index sample_hubspot_rows) (clickup_index []) (corporations_index sample_corporations_far_rows) sample_target sample_facility) = []"
    using A [THEN conjunct2, THEN conjunct2, THEN conjunct2, THEN conjunct2, THEN conjunct1] lA by auto
  have cA6: "clickup_task_name (match_row sample_scorer (hubspot_index sample_hubspot_rows) (clickup_index []) (corporations_index sample_corporations_far_rows) sample_target sample_facility) = []"
    using A [THEN conjunct2, THEN conjunct2, THEN conjunct2, THEN conjunct2, THEN conjunct2, THEN conjunct1, THEN mp, OF lA] by simp
  have cA9: "corporations_task_name (match_row sample_scorer (hubspot_index sample_hubspot_rows) (clickup_index []) (corporations_index sample_corporations_far_rows) sample_target sample_facility) = []"
    using A [THEN conjunct2, THEN conjunct2, THEN conjunct2, THEN conjunct2, THEN conjunct2, THEN conjunct2, THEN conjunct2, THEN conjunct2, THEN conjunct1] bA by auto
  have cA10: "corporations_task_location (match_row sample_scorer (hubspot_index sample_hubspot_rows) (clickup_index []) (corporations_index sample_corporations_far_rows) sample_target sample_facility) = []"
    using A [THEN conjunct2, THEN conjunct2, THEN conjunct2, THEN conjunct2, THEN conjunct2, THEN conjunct2, THEN conjunct2, THEN conjunct2, THEN conjunct2, THEN conjunct1] .
  have cA11: "corporations_match_score (match_row sample_scorer (hubspot_index sample_hubspot_rows) (clickup_index []) (corporations_index sample_corporations_far_rows) sample_target sample_facility) = 0"
    using A [THEN conjunct2, THEN conjunct2, THEN conjunct2, THEN conjunct2, THEN conjunct2, THEN conjunct2, THEN conjunct2, THEN conjunct2, THEN conjunct2, THEN conjunct2, THEN conjunct1, THEN mp, OF bA] by simp
  have cB1: "hubspot_full_address (match_row sample_scorer (hubspot_index []) (clickup_index sample_clickup_rows) (corporations_index sample_corporations_near_rows) sample_target sample_facility) = []"
    using B [THEN conjunct1] hB by auto
  have cB2: "hubspot_company_name (match_row sample_scorer (hubspot_index []) (clickup_index sample_clickup_rows) (corporations_index sample_corporations_near_rows) sample_target sample_facility) = []"
    using B [THEN conjunct2, THEN conjunct1, THEN mp, OF hB] by simp
  have cB5: "clickup_task_location (match_row sample_scorer (hubspot_index []) (clickup_index sample_clickup_rows) (corporations_index sample_corporations_near_rows) sample_target sample_facility) = ''100 Oak Avenue, Austin, TX 78701''"
    using B [THEN conjunct2, THEN conjunct2, THEN conjunct2, THEN conjunct2, THEN conjunct2, THEN conjunct2, THEN conjunct1, THEN mp, OF lB] fB by auto
  have cB7: "clickup_task_name (match_row sample_scorer (hubspot_index []) (clickup_index sample_clickup_rows) (corporations_index sample_corporations_near_rows) sample_target sample_facility) = ''Oak Facility Inc''"
    using B [THEN conjunct2, THEN conjunct2, THEN conjunct2, THEN conjunct2, THEN conjunct2, THEN conjunct2, THEN conjunct1, THEN mp, OF lB] fB by auto
  have cB9: "corporations_task_name (match_row sample_scorer (hubspot_index []) (clickup_index sample_clickup_rows) (corporations_index sample_corporations_near_rows) sample_target sample_facility) = ''Oak Facility Group''"
    using B [THEN conjunct2, THEN conjunct2, THEN conjunct2, THEN conjunct2, THEN conjunct2, THEN conjunct2, THEN conjunct2, THEN conjunct2, THEN conjunct2, THEN conjunct2, THEN conjunct2, THEN conjunct1, THEN mp, OF bB] gB by auto
  have cB12: "corporations_match_score (match_row sample_scorer (hubspot_index []) (clickup_index sample_clickup_rows) (corporations_index sample_corporations_near_rows) sample_target sample_facility) = 1"
    using B [THEN conjunct2, THEN conjunct2, THEN conjunct2, THEN conjunct2, THEN conjunct2, THEN conjunct2, THEN conjunct2, THEN conjunct2, THEN conjunct2, THEN conjunct2, THEN conjunct2, THEN conjunct1, THEN mp, OF bB] sB by auto
  from A [THEN conjunct2, THEN conjunct2, THEN conjunct2, THEN conjunct2, THEN conjunct2, THEN conjunct2, THEN conjunct2, THEN conjunct2, THEN conjunct2, THEN conjunct2, THEN conjunct2, THEN conjunct2, THEN conjunct1] obtain k :: int where k: "py_round3 (1 / 2000) = of_int k / 1000"
    "\<bar>1 / 2000 - real_of_int k / 1000\<bar> \<le> 1 / 2000"
    "\<bar>1 / 2000 - real_of_int k / 1000\<bar> = 1 / 2000 \<longrightarrow> even k"
    by blast
  from k(2) have "0 \<le> real_of_int k" "real_of_int k \<le> 1"
    by linarith+
  then have "k = 0 \<or> k = 1" by linarith
  moreover have "k \<noteq> 1" using k(3) by auto
  ultimately have "k = 0" by simp
  with k(1) have cR: "py_round3 (1 / 2000) = 0" by simp
  show ?thesis
    using cA1 cA3 cA4 cA5 cA6 cA9 cA10 cA11 cB1 cB2 cB5 cB7 cB9 cB12 cR by (intro conjI)
qed

section \<open>Properties of the string operations\<close>

lemma lower_char_idem: "lower_char (lower_char c) = lower_char c"
  by (auto simp: lower_char_def Let_def)

lemma lower_char_space: "lower_char (CHR '' '') = CHR '' ''"
  by (simp add: lower_char_def)

lemma py_lower_idem: "py_lower (py_lower s) = py_lower s"
  by (simp add: py_lower_def lower_char_idem)

lemma newline_is_space: "py_isspace (CHR 0x0A)"
  by (simp add: py_isspace_def)

lemma space_is_space: "py_isspace (CHR '' '')"
  by (simp add: py_isspace_def)

lemma py_strip_sublist: "sublist (py_strip s) s"
proof -
  have "suffix (dropWhile py_isspace s) s"
    by (rule suffix_dropWhile)
  moreover have "prefix (rev (dropWhile py_isspace (rev (dropWhile py_isspace s)))) (dropWhile py_isspace s)"
    using suffix_dropWhile [of py_isspace "rev (dropWhile py_isspace s)"]
    by (simp add: suffix_to_prefix)
  ultimately show ?thesis
    unfolding py_strip_def
    by (meson prefix_imp_sublist suffix_imp_sublist sublist_order.order_trans)
qed

lemma py_strip_fixed:
  assumes "s = [] \<or> (\<not> py_isspace (hd s) \<and> \<not> py_isspace (last s))"
  shows "py_strip s = s"
proof (cases s)
  case Nil
  then show ?thesis by (simp add: py_strip_def)
next
  case (Cons c cs)
  with assms have h: "\<not> py_isspace (hd s)" and l: "\<not> py_isspace (last s)" by auto
  from h Cons have "dropWhile py_isspace s = s" by simp
  moreover from l have "dropWhile py_isspace (rev s) = rev s"
    by (simp add: dropWhile_eq_self_iff hd_rev)
  ultimately show ?thesis by (simp add: py_strip_def)
qed

lemma py_strip_ends:
  "py_strip s = [] \<or> (\<not> py_isspace (hd (py_strip s)) \<and> \<not> py_isspace (last (py_strip s)))"
proof (cases "py_strip s = []")
  case False
  let ?t = "dropWhile py_isspace s"
  let ?u = "dropWhile py_isspace (rev ?t)"
  from False have u: "?u \<noteq> []" by (simp add: py_strip_def)
  then have "\<not> py_isspace (hd ?u)" by (rule hd_dropWhile)
  then have l: "\<not> py_isspace (last (py_strip s))"
    using u by (simp add: py_strip_def last_rev)
  have t: "?t \<noteq> []"
  proof
    assume "?t = []"
    then have "?u = dropWhile py_isspace (rev [])" by (rule arg_cong)
    with u show False by simp
  qed
  then have ht: "\<not> py_isspace (hd ?t)" by (rule hd_dropWhile)
  then have "\<not> py_isspace (last (rev ?t))" using t by (simp add: last_rev)
  have "prefix (rev ?u) ?t"
    using suffix_dropWhile [of py_isspace "rev ?t"] by (simp add: suffix_to_prefix)
  then obtain zs where "?t = rev ?u @ zs" by (auto simp: prefix_def)
  then have "hd ?t = hd (rev ?u @ zs)" by (rule arg_cong)
  then have "hd (rev ?u) = hd ?t"
    using u by (simp del: dropWhile_eq_Nil_conv)
  with ht have "\<not> py_isspace (hd (py_strip s))" by (simp add: py_strip_def)
  with l show ?thesis by simp
qed simp

lemma py_strip_idem: "py_strip (py_strip s) = py_strip s"
  by (rule py_strip_fixed) (rule py_strip_ends)

lemma length_py_strip: "length (py_strip s) \<le> length s"
  using py_strip_sublist [of s] by (rule sublist_length_le)

section \<open>Properties of the whitespace collapse\<close>

lemma collapse_ws_nonspace_head:
  "\<not> py_isspace c \<Longrightarrow> collapse_ws (c # cs) = c # collapse_ws cs"
  by simp

lemma collapse_ws_hd:
  assumes "s \<noteq> []" "\<not> py_isspace (hd s)"
  shows "collapse_ws s \<noteq> [] \<and> hd (collapse_ws s) = hd s"
  using assms by (cases s) auto

lemma collapse_ws_space_chars:
  "c \<in> set (collapse_ws s) \<Longrightarrow> py_isspace c \<Longrightarrow> c = CHR '' ''"
proof (induction s rule: collapse_ws.induct)
  case 1
  then show ?case by simp
next
  case (2 d ds)
  show ?case
  proof (cases "py_isspace d")
    case True
    with "2.prems" have "c = CHR '' '' \<or> c \<in> set (collapse_ws (dropWhile py_isspace ds))"
      by simp
    with "2.IH"(1) [OF True] "2.prems"(2) show ?thesis by blast
  next
    case False
    with "2.prems" have "c \<in> set (collapse_ws ds)" by auto
    with "2.IH"(2) [OF False] "2.prems"(2) show ?thesis by blast
  qed
qed

lemma collapse_ws_chars:
  "c \<in> set (collapse_ws s) \<Longrightarrow> c = CHR '' '' \<or> c \<in> set s"
proof (induction s rule: collapse_ws.induct)
  case 1
  then show ?case by simp
next
  case (2 d ds)
  show ?case
  proof (cases "py_isspace d")
    case True
    with "2.prems" have "c = CHR '' '' \<or> c \<in> set (collapse_ws (dropWhile py_isspace ds))"
      by simp
    with "2.IH"(1) [OF True] show ?thesis
      by (auto dest: set_dropWhileD)
  next
    case False
    with "2.prems" have "c = d \<or> c \<in> set (collapse_ws ds)" by auto
    with "2.IH"(2) [OF False] show ?thesis by auto
  qed
qed

lemma collapse_ws_no_double:
  "sublist [a, b] (collapse_ws s) \<Longrightarrow> \<not> (py_isspace a \<and> py_isspace b)"
proof (induction s rule: collapse_ws.induct)
  case 1
  then show ?case by simp
next
  case (2 d ds)
  show ?case
  proof (cases "py_isspace d")
    case True
    let ?t = "dropWhile py_isspace ds"
    from True "2.prems" have "prefix [a, b] (CHR '' '' # collapse_ws ?t) \<or> sublist [a, b] (collapse_ws ?t)"
      by (simp add: sublist_Cons_right)
    then show ?thesis
    proof
      assume p: "prefix [a, b] (CHR '' '' # collapse_ws ?t)"
      then have ne: "collapse_ws ?t \<noteq> []" and b: "b = hd (collapse_ws ?t)"
        by (auto simp: prefix_def)
      have t: "?t \<noteq> []"
      proof
        assume "?t = []"
        then have "collapse_ws ?t = collapse_ws []" by (rule arg_cong)
        with ne show False by simp
      qed
      then have "\<not> py_isspace (hd ?t)" by (rule hd_dropWhile)
      with collapse_ws_hd [OF t] b show ?thesis by simp
    next
      assume "sublist [a, b] (collapse_ws ?t)"
      with "2.IH"(1) [OF True] show ?thesis .
    qed
  next
    case False
    with "2.prems" have "prefix [a, b] (d # collapse_ws ds) \<or> sublist [a, b] (collapse_ws ds)"
      by (simp add: sublist_Cons_right)
    then show ?thesis
    proof
      assume "prefix [a, b] (d # collapse_ws ds)"
      then have "a = d" by (auto simp: prefix_def)
      with False show ?thesis by simp
    next
      assume "sublist [a, b] (collapse_ws ds)"
      with "2.IH"(2) [OF False] show ?thesis .
    qed
  qed
qed

lemma collapse_ws_fixed:
  assumes "\<forall>c\<in>set r. py_isspace c \<longrightarrow> c = CHR '' ''"
    and "\<forall>a b. sublist [a, b] r \<longrightarrow> \<not> (py_isspace a \<and> py_isspace b)"
  shows "collapse_ws r = r"
  using assms
proof (induction r)
  case Nil
  then show ?case by simp
next
  case (Cons c cs)
  have sub: "\<forall>a b. sublist [a, b] cs \<longrightarrow> \<not> (py_isspace a \<and> py_isspace b)"
    using Cons.prems(2) by (auto simp: sublist_Cons_right)
  from Cons.prems(1) have "\<forall>c\<in>set cs. py_isspace c \<longrightarrow> c = CHR '' ''" by simp
  from Cons.IH [OF this sub] have ih: "collapse_ws cs = cs" .
  show ?case
  proof (cases "py_isspace c")
    case True
    with Cons.prems(1) have c: "c = CHR '' ''" by simp
    have "dropWhile py_isspace cs = cs"
    proof (cases cs)
      case (Cons d ds)
      then have "sublist [c, d] (c # cs)" by (simp add: sublist_Cons_right)
      with Cons.prems(2) True have "\<not> py_isspace d" by blast
      with Cons show ?thesis by simp
    qed simp
    with True c ih show ?thesis by simp
  next
    case False
    with ih show ?thesis by simp
  qed
qed

section \<open>Properties of the suffix substitution\<close>

lemma star_ws_suffix:
  "star_ws k r = Some x \<Longrightarrow> \<exists>r'. suffix r' r \<and> k r' = Some x"
proof (induction r)
  case Nil
  then show ?case by auto
next
  case (Cons c cs)
  show ?case
  proof (cases "py_isspace c \<and> star_ws k cs \<noteq> None")
    case True
    with Cons.prems have "star_ws k cs = Some x" by (auto split: option.splits)
    from Cons.IH [OF this] show ?thesis by (auto intro: suffix_ConsI)
  next
    case False
    with Cons.prems have "k (c # cs) = Some x" by (auto split: option.splits if_splits)
    then show ?thesis by auto
  qed
qed

lemma opt_comma_suffix:
  "opt_comma k r = Some x \<Longrightarrow> \<exists>r'. suffix r' r \<and> k r' = Some x"
  by (cases r) (auto simp: opt_comma_def split: if_splits option.splits intro: suffix_ConsI)

lemma lit_dollar_SomeD:
  "lit_dollar lit r = Some rest \<Longrightarrow> r = lit @ rest \<and> at_dollar rest"
  by (auto simp: lit_dollar_def split: if_splits) (metis append_take_drop_id)

lemma suffix_pattern_SomeD:
  assumes "suffix_pattern lit r = Some rest"
  shows "suffix (lit @ rest) r \<and> at_dollar rest"
proof -
  from assms obtain r1 where r1: "suffix r1 r" "star_ws (lit_dollar lit) r1 = Some rest"
    unfolding suffix_pattern_def by (blast dest: opt_comma_suffix)
  then obtain r2 where r2: "suffix r2 r1" "lit_dollar lit r2 = Some rest"
    by (blast dest: star_ws_suffix)
  from lit_dollar_SomeD [OF r2(2)] r1(1) r2(1) show ?thesis
    by (auto intro: suffix_order.trans)
qed

lemma suffix_pattern_no_newline:
  assumes "suffix_pattern lit r = Some rest" "CHR 0x0A \<notin> set r"
  shows "rest = [] \<and> suffix lit r"
proof -
  from suffix_pattern_SomeD [OF assms(1)] have s: "suffix (lit @ rest) r" and d: "at_dollar rest"
    by simp_all
  from set_mono_suffix [OF s] have "set rest \<subseteq> set r" by simp
  with assms(2) d have "rest = []" by (auto simp: at_dollar_def)
  with s show ?thesis by simp
qed

lemma suffix_pattern_lit:
  assumes "lit \<noteq> []" "\<not> py_isspace (hd lit)" "hd lit \<noteq> CHR '',''"
  shows "suffix_pattern lit lit = Some []"
proof -
  from assms obtain c cs where lit: "lit = c # cs" "\<not> py_isspace c" "c \<noteq> CHR '',''"
    by (cases lit) auto
  have "lit_dollar lit lit = Some []"
    by (simp add: lit_dollar_def at_dollar_def)
  then show ?thesis
    using lit by (simp add: suffix_pattern_def opt_comma_def)
qed

lemma sub_suffix_prefix:
  "CHR 0x0A \<notin> set s \<Longrightarrow> prefix (sub_suffix lit s) s"
proof (induction s)
  case Nil
  then show ?case by simp
next
  case (Cons c cs)
  show ?case
  proof (cases "suffix_pattern lit (c # cs)")
    case None
    with Cons show ?thesis by simp
  next
    case (Some rest)
    from suffix_pattern_no_newline [OF Some Cons.prems] Some show ?thesis by simp
  qed
qed

lemma sub_suffix_unchanged:
  "CHR 0x0A \<notin> set s \<Longrightarrow> \<not> suffix lit s \<Longrightarrow> sub_suffix lit s = s"
proof (induction s)
  case Nil
  then show ?case by simp
next
  case (Cons c cs)
  have "suffix_pattern lit (c # cs) = None"
  proof (cases "suffix_pattern lit (c # cs)")
    case (Some rest)
    from suffix_pattern_no_newline [OF Some Cons.prems(1)] Cons.prems(2) show ?thesis by simp
  qed simp
  moreover from Cons.prems(2) have "\<not> suffix lit cs" by (auto intro: suffix_ConsI)
  ultimately show ?case using Cons by simp
qed

lemma sub_suffix_shorter:
  assumes "lit \<noteq> []" "\<not> py_isspace (hd lit)" "hd lit \<noteq> CHR '',''"
  shows "CHR 0x0A \<notin> set s \<Longrightarrow> suffix lit s \<Longrightarrow> length (sub_suffix lit s) < length s"
proof (induction s)
  case Nil
  with assms(1) show ?case by simp
next
  case (Cons c cs)
  show ?case
  proof (cases "suffix_pattern lit (c # cs)")
    case (Some rest)
    from suffix_pattern_no_newline [OF Some Cons.prems(1)] Some show ?thesis by simp
  next
    case None
    with suffix_pattern_lit [OF assms] have "lit \<noteq> c # cs" by auto
    with Cons.prems(2) have "suffix lit cs" by (simp add: suffix_Cons)
    with Cons None show ?thesis by simp
  qed
qed

section \<open>The normal form of an address\<close>

lemma normalize_address_Some:
  "normalize_address (Some a) =
     py_strip (sub_suffix ''usa'' (sub_suffix ''united states of america''
       (collapse_ws (py_strip (py_lower a)))))"
  by (simp add: normalize_address_def)

lemma collapsed_no_newline: "CHR 0x0A \<notin> set (collapse_ws s)"
  using collapse_ws_space_chars [of "CHR 0x0A" s] newline_is_space by auto

lemma normalize_address_sublist:
  "sublist (normalize_address (Some a)) (collapse_ws (py_strip (py_lower a)))"
proof -
  let ?a2 = "collapse_ws (py_strip (py_lower a))"
  let ?a3 = "sub_suffix ''united states of america'' ?a2"
  let ?a4 = "sub_suffix ''usa'' ?a3"
  have p3: "prefix ?a3 ?a2"
    by (rule sub_suffix_prefix) (rule collapsed_no_newline)
  then have "CHR 0x0A \<notin> set ?a3"
    using collapsed_no_newline [of "py_strip (py_lower a)"] set_mono_prefix [OF p3] by blast
  then have p4: "prefix ?a4 ?a3"
    by (rule sub_suffix_prefix)
  have "sublist (py_strip ?a4) ?a4"
    by (rule py_strip_sublist)
  with p3 p4 show ?thesis
    unfolding normalize_address_Some
    by (meson prefix_imp_sublist sublist_order.order_trans)
qed

lemma normalize_address_form:
  fixes a :: string
  defines "r \<equiv> normalize_address (Some a)"
  shows "py_lower r = r" and "py_strip r = r" and "collapse_ws r = r" and "CHR 0x0A \<notin> set r"
proof -
  let ?a2 = "collapse_ws (py_strip (py_lower a))"
  have sub: "sublist r ?a2"
    unfolding r_def by (rule normalize_address_sublist)
  have chars: "c = CHR '' '' \<or> c \<in> set (py_lower a)" if "c \<in> set r" for c
  proof -
    from that set_mono_sublist [OF sub] have "c \<in> set ?a2" by blast
    from collapse_ws_chars [OF this] set_mono_sublist [OF py_strip_sublist [of "py_lower a"]]
    show ?thesis by blast
  qed
  have "lower_char c = c" if "c \<in> set r" for c
    using chars [OF that] by (auto simp: py_lower_def lower_char_idem lower_char_space)
  then show "py_lower r = r"
    by (simp add: py_lower_def map_idI)
  show "py_strip r = r"
    unfolding r_def normalize_address_Some by (rule py_strip_idem)
  have sp: "\<forall>c\<in>set r. py_isspace c \<longrightarrow> c = CHR '' ''"
    using set_mono_sublist [OF sub] collapse_ws_space_chars by blast
  have dbl: "\<forall>x y. sublist [x, y] r \<longrightarrow> \<not> (py_isspace x \<and> py_isspace y)"
    using sub collapse_ws_no_double by (meson sublist_order.order_trans)
  from sp dbl show "collapse_ws r = r"
    by (rule collapse_ws_fixed)
  from sp newline_is_space show "CHR 0x0A \<notin> set r"
    by auto
qed

lemma usa_literals:
  "''usa'' \<noteq> []" "\<not> py_isspace (hd ''usa'')" "hd ''usa'' \<noteq> CHR '',''"
  "''united states of america'' \<noteq> []" "\<not> py_isspace (hd ''united states of america'')"
  "hd ''united states of america'' \<noteq> CHR '',''"
  by (simp_all add: py_isspace_def)

text \<open>
  Claim C6 as stated fails: each of the two substitutions removes one trailing suffix, so an
  address that ends in the suffix twice keeps one occurrence, which a second normalisation
  removes.
\<close>

theorem normalize_twice_counterexample:
  "normalize_address (Some ''1 Main St, USA, USA'') = ''1 main st, usa''
   \<and> normalize_address (Some (normalize_address (Some ''1 Main St, USA, USA''))) = ''1 main st''"
  by code_simp

text \<open>
  Claim C6, amended. Normalising a normalised address changes nothing exactly when the
  normalised address does not end in \<open>usa\<close> or in \<open>united states of america\<close>; so
  normalisation is idempotent on every address whose normal form has neither suffix.
\<close>

theorem normalize_idempotent_iff_no_country_suffix:
  "normalize_address (Some (normalize_address x)) = normalize_address x
   \<longleftrightarrow> \<not> suffix ''usa'' (normalize_address x)
       \<and> \<not> suffix ''united states of america'' (normalize_address x)"
proof (cases x)
  case None
  then show ?thesis
    by (simp add: normalize_address_def py_strip_def py_lower_def)
next
  case (Some a)
  define r where "r = normalize_address (Some a)"
  note form = normalize_address_form [of a, folded r_def]
  let ?a3 = "sub_suffix ''united states of america'' r"
  let ?a4 = "sub_suffix ''usa'' ?a3"
  have again: "normalize_address (Some r) = py_strip ?a4"
    by (simp add: normalize_address_Some form)
  have p3: "prefix ?a3 r"
    using form(4) by (rule sub_suffix_prefix)
  then have n3: "CHR 0x0A \<notin> set ?a3"
    using form(4) set_mono_prefix [OF p3] by blast
  have len4: "length ?a4 \<le> length ?a3"
    using sub_suffix_prefix [OF n3] by (rule prefix_length_le)
  have len3: "length ?a3 \<le> length r"
    using p3 by (rule prefix_length_le)
  have len: "length (normalize_address (Some r)) \<le> length ?a4"
    unfolding again by (rule length_py_strip)
  show ?thesis
  proof (cases "suffix ''united states of america'' r")
    case True
    from sub_suffix_shorter [OF usa_literals(4-6) form(4) True] len len4
    have "length (normalize_address (Some r)) < length r" by simp
    then have "normalize_address (Some r) \<noteq> r" by auto
    with True show ?thesis by (simp add: Some r_def)
  next
    case False
    then have a3: "?a3 = r"
      using form(4) by (simp add: sub_suffix_unchanged)
    show ?thesis
    proof (cases "suffix ''usa'' r")
      case True
      from sub_suffix_shorter [OF usa_literals(1-3) form(4) True] len a3
      have "length (normalize_address (Some r)) < length r" by simp
      then have "normalize_address (Some r) \<noteq> r" by auto
      with True show ?thesis by (simp add: Some r_def)
    next
      case usa: False
      then have "?a4 = r"
        using form(4) a3 by (simp add: sub_suffix_unchanged)
      with again form(2) have "normalize_address (Some r) = r" by simp
      with False usa show ?thesis by (simp add: Some r_def)
    qed
  qed
qed

theorem normalize_idempotent_iff_no_country_suffix_witness:
  "normalize_address (Some (normalize_address (Some ''1 Main  St,  Springfield '')))
     = normalize_address (Some ''1 Main  St,  Springfield '')"
proof -
  have "\<not> suffix ''usa'' (normalize_address (Some ''1 Main  St,  Springfield ''))
    \<and> \<not> suffix ''united states of america'' (normalize_address (Some ''1 Main  St,  Springfield ''))"
    by code_simp
  with normalize_idempotent_iff_no_country_suffix [of "Some ''1 Main  St,  Springfield ''"] show ?thesis by blast
qed

section \<open>The substitution removes the trailing suffix\<close>

lemma lit_dollar_space:
  assumes "lit \<noteq> []" "\<not> py_isspace (hd lit)"
  shows "py_isspace c \<Longrightarrow> lit_dollar lit (c # cs) = None"
  using assms by (cases lit) (auto simp: lit_dollar_def)

lemma suffix_pattern_eq:
  assumes "lit \<noteq> []" "\<not> py_isspace (hd lit)" "hd lit \<noteq> CHR '',''"
  shows "suffix_pattern lit r =
     (case r of
        [] \<Rightarrow> None
      | c # cs \<Rightarrow> if c = CHR '','' then lit_dollar lit (dropWhile py_isspace cs)
                 else lit_dollar lit (dropWhile py_isspace (c # cs)))"
proof -
  have k: "star_ws (lit_dollar lit) t = lit_dollar lit (dropWhile py_isspace t)" for t
    by (rule star_ws_greedy) (rule lit_dollar_space [OF assms(1,2)])
  have c: "lit_dollar lit (CHR '','' # cs) = None" for cs
    using assms by (cases lit) (auto simp: lit_dollar_def)
  have "star_ws (lit_dollar lit) = (\<lambda>t. lit_dollar lit (dropWhile py_isspace t))"
    by (rule ext) (rule k)
  then have e: "suffix_pattern lit u = opt_comma (\<lambda>t. lit_dollar lit (dropWhile py_isspace t)) u"
    for u
    by (simp only: suffix_pattern_def)
  show ?thesis
  proof (cases r)
    case Nil
    with assms(1) show ?thesis
      by (simp add: suffix_pattern_def opt_comma_def lit_dollar_def)
  next
    case (Cons d ds)
    show ?thesis
    proof (cases "d = CHR '',''")
      case True
      with Cons c comma_not_space show ?thesis
        by (simp add: e opt_comma_def split: option.splits)
    next
      case False
      with Cons show ?thesis
        by (simp add: e opt_comma_def)
    qed
  qed
qed

lemma suffix_pattern_shape:
  assumes lit: "lit \<noteq> []" "\<not> py_isspace (hd lit)" "hd lit \<noteq> CHR '',''"
    and m: "suffix_pattern lit r = Some rest"
  shows "\<exists>ws. list_all py_isspace ws \<and> (r = ws @ lit @ rest \<or> r = CHR '','' # ws @ lit @ rest)"
proof -
  from m obtain d ds where r: "r = d # ds"
    by (cases r) (auto simp: suffix_pattern_eq [OF lit])
  show ?thesis
  proof (cases "d = CHR '',''")
    case True
    with m r have "lit_dollar lit (dropWhile py_isspace ds) = Some rest"
      by (simp add: suffix_pattern_eq [OF lit])
    then have "dropWhile py_isspace ds = lit @ rest"
      by (simp add: lit_dollar_SomeD)
    then obtain ws where "ds = ws @ lit @ rest" "list_all py_isspace ws"
      by (auto simp: dropWhile_space_decomp)
    with r True show ?thesis by blast
  next
    case False
    with m r have "lit_dollar lit (dropWhile py_isspace r) = Some rest"
      by (simp add: suffix_pattern_eq [OF lit])
    then have "dropWhile py_isspace r = lit @ rest"
      by (simp add: lit_dollar_SomeD)
    then obtain ws where "r = ws @ lit @ rest" "list_all py_isspace ws"
      by (auto simp: dropWhile_space_decomp)
    then show ?thesis by blast
  qed
qed

lemma suffix_pattern_matches:
  assumes lit: "lit \<noteq> []" "\<not> py_isspace (hd lit)" "hd lit \<noteq> CHR '',''"
    and ws: "list_all py_isspace ws"
  shows "suffix_pattern lit (ws @ lit) = Some []"
    and "suffix_pattern lit (CHR '','' # ws @ lit) = Some []"
proof -
  have d: "dropWhile py_isspace (ws @ lit) = lit"
    using ws lit by (subst dropWhile_space_decomp) (auto intro!: exI [of _ ws])
  have l: "lit_dollar lit lit = Some []"
    by (simp add: lit_dollar_def at_dollar_def)
  show "suffix_pattern lit (CHR '','' # ws @ lit) = Some []"
    by (simp add: suffix_pattern_eq [OF lit] d l)
  have "ws @ lit \<noteq> []" using lit by simp
  then obtain c cs where c: "ws @ lit = c # cs" by (cases "ws @ lit") auto
  have "c \<noteq> CHR '',''"
  proof (cases ws)
    case Nil
    with c lit show ?thesis by auto
  next
    case (Cons w ws')
    with c ws comma_not_space show ?thesis by auto
  qed
  with c d l show "suffix_pattern lit (ws @ lit) = Some []"
    by (simp add: suffix_pattern_eq [OF lit])
qed

lemma sub_suffix_first_match:
  assumes "suffix_pattern lit r = Some []"
    and "\<And>q' y. q = q' @ y \<Longrightarrow> y \<noteq> [] \<Longrightarrow> suffix_pattern lit (y @ r) = None"
  shows "sub_suffix lit (q @ r) = q"
  using assms(2)
proof (induction q)
  case Nil
  from assms(1) show ?case by (cases r) simp_all
next
  case (Cons c q1)
  have "suffix_pattern lit ((c # q1) @ r) = None"
    by (rule Cons.prems [of "[]"]) simp_all
  moreover have "sub_suffix lit (q1 @ r) = q1"
  proof (rule Cons.IH)
    fix q' y
    assume "q1 = q' @ y" "y \<noteq> []"
    then show "suffix_pattern lit (y @ r) = None"
      using Cons.prems [of "c # q'" y] by simp
  qed
  ultimately show ?case by simp
qed

lemma py_rstrip_decomp:
  "\<exists>ws. s = py_rstrip s @ ws \<and> list_all py_isspace ws"
proof -
  let ?t = "takeWhile py_isspace (rev s)"
  let ?d = "dropWhile py_isspace (rev s)"
  have "rev (?t @ ?d) = rev ?d @ rev ?t"
    by (rule rev_append)
  moreover have "?t @ ?d = rev s"
    by (rule takeWhile_dropWhile_id)
  ultimately have "rev (rev s) = rev ?d @ rev ?t"
    by (simp only:)
  then have "s = py_rstrip s @ rev ?t"
    by (simp only: rev_rev_ident py_rstrip_def)
  moreover have "list_all py_isspace (rev ?t)"
    by (auto simp: list_all_iff dest: set_takeWhileD)
  ultimately show ?thesis by blast
qed

lemma py_rstrip_last:
  "py_rstrip s \<noteq> [] \<Longrightarrow> \<not> py_isspace (last (py_rstrip s))"
  using hd_dropWhile [of py_isspace "rev s"] by (simp add: py_rstrip_def last_rev)

lemma no_earlier_match_after_comma:
  assumes lit: "lit \<noteq> []" "\<not> py_isspace (hd lit)" "hd lit \<noteq> CHR '',''"
    and y: "y \<noteq> []"
  shows "suffix_pattern lit (y @ CHR '','' # ws @ lit) \<noteq> Some []"
proof
  assume "suffix_pattern lit (y @ CHR '','' # ws @ lit) = Some []"
  from suffix_pattern_shape [OF lit this] obtain ws' where ws': "list_all py_isspace ws'"
    and "y @ CHR '','' # ws @ lit = ws' @ lit \<or> y @ CHR '','' # ws @ lit = CHR '','' # ws' @ lit"
    by auto
  then have "(y @ CHR '','' # ws) @ lit = ws' @ lit \<or> (y @ CHR '','' # ws) @ lit = (CHR '','' # ws') @ lit"
    by simp
  then have "y @ CHR '','' # ws = ws' \<or> y @ CHR '','' # ws = CHR '','' # ws'"
    by (simp only: append_same_eq)
  then show False
  proof
    assume "y @ CHR '','' # ws = ws'"
    then have "CHR '','' \<in> set ws'" by auto
    with ws' comma_not_space show False by (auto simp: list_all_iff)
  next
    assume e: "y @ CHR '','' # ws = CHR '','' # ws'"
    from y obtain c y' where "y = c # y'" by (cases y) auto
    with e have "y' @ CHR '','' # ws = ws'" by simp
    then have "CHR '','' \<in> set ws'" by auto
    with ws' comma_not_space show False by (auto simp: list_all_iff)
  qed
qed

lemma no_earlier_match_after_text:
  assumes lit: "lit \<noteq> []" "\<not> py_isspace (hd lit)" "hd lit \<noteq> CHR '',''"
    and y: "y \<noteq> []" "\<not> py_isspace (last y)" "last y \<noteq> CHR '',''"
  shows "suffix_pattern lit (y @ ws @ lit) \<noteq> Some []"
proof
  assume "suffix_pattern lit (y @ ws @ lit) = Some []"
  from suffix_pattern_shape [OF lit this] obtain ws' where ws': "list_all py_isspace ws'"
    and "y @ ws @ lit = ws' @ lit \<or> y @ ws @ lit = CHR '','' # ws' @ lit"
    by auto
  then have "(y @ ws) @ lit = ws' @ lit \<or> (y @ ws) @ lit = (CHR '','' # ws') @ lit"
    by simp
  then have "y @ ws = ws' \<or> y @ ws = CHR '','' # ws'"
    by (simp only: append_same_eq)
  then show False
  proof
    assume "y @ ws = ws'"
    with y(1) have "last y \<in> set ws'" by auto
    with ws' y(2) show False by (auto simp: list_all_iff)
  next
    assume e: "y @ ws = CHR '','' # ws'"
    from y(1) obtain c y' where c: "y = c # y'" by (cases y) auto
    with e have y': "y' @ ws = ws'" and "c = CHR '',''" by simp_all
    show False
    proof (cases "y' = []")
      case True
      with c \<open>c = CHR '',''\<close> y(3) show False by simp
    next
      case False
      with c have "last y = last y'" by simp
      with False y' have "last y \<in> set ws'" by auto
      with ws' y(2) show False by (auto simp: list_all_iff)
    qed
  qed
qed

lemma sub_suffix_eq_spec_remove_suffix:
  assumes lit: "lit \<noteq> []" "\<not> py_isspace (hd lit)" "hd lit \<noteq> CHR '',''"
    and nl: "CHR 0x0A \<notin> set s"
  shows "sub_suffix lit s = spec_remove_suffix lit s"
proof (cases "suffix lit s")
  case False
  with nl show ?thesis by (simp add: sub_suffix_unchanged spec_remove_suffix_def)
next
  case True
  then obtain p where s: "s = p @ lit" by (auto simp: suffix_def)
  then have tk: "take (length s - length lit) s = p" by simp
  obtain ws where p: "p = py_rstrip p @ ws" and ws: "list_all py_isspace ws"
    using py_rstrip_decomp [of p] by blast
  let ?p = "py_rstrip p"
  have none: "suffix_pattern lit t = None" if "suffix_pattern lit t \<noteq> Some []" "set t \<subseteq> set s" for t
  proof (cases "suffix_pattern lit t")
    case (Some rest)
    from that(2) nl have "CHR 0x0A \<notin> set t" by auto
    from suffix_pattern_no_newline [OF Some this] Some that(1) show ?thesis by simp
  qed simp
  show ?thesis
  proof (cases "?p \<noteq> [] \<and> last ?p = CHR '','' ")
    case True
    then have bl: "?p = butlast ?p @ [CHR '','']"
      by (metis append_butlast_last_id)
    with p s have s': "s = butlast ?p @ (CHR '','' # ws @ lit)"
      by (metis append.assoc append_Cons append_Nil)
    have "sub_suffix lit (butlast ?p @ (CHR '','' # ws @ lit)) = butlast ?p"
    proof (rule sub_suffix_first_match)
      show "suffix_pattern lit (CHR '','' # ws @ lit) = Some []"
        by (rule suffix_pattern_matches(2) [OF lit ws])
    next
      fix q' y
      assume q: "butlast ?p = q' @ y" and y: "y \<noteq> []"
      have "set s = set (butlast ?p @ (CHR '','' # ws @ lit))"
        using s' by (rule arg_cong)
      then have "set (y @ CHR '','' # ws @ lit) \<subseteq> set s"
        by (auto simp: q)
      with no_earlier_match_after_comma [OF lit y, of ws]
      show "suffix_pattern lit (y @ CHR '','' # ws @ lit) = None"
        by (rule none)
    qed
    with s' have "sub_suffix lit s = butlast ?p" by simp
    with True \<open>suffix lit s\<close> tk show ?thesis
      by (simp add: spec_remove_suffix_def)
  next
    case False
    from p s have s': "s = ?p @ (ws @ lit)"
      by (metis append.assoc)
    have "sub_suffix lit (?p @ (ws @ lit)) = ?p"
    proof (rule sub_suffix_first_match)
      show "suffix_pattern lit (ws @ lit) = Some []"
        by (rule suffix_pattern_matches(1) [OF lit ws])
    next
      fix q' y
      assume q: "?p = q' @ y" and y: "y \<noteq> []"
      then have ne: "?p \<noteq> []" and l: "last ?p = last y" by auto
      from py_rstrip_last [OF ne] l have y2: "\<not> py_isspace (last y)" by simp
      from False ne l have y3: "last y \<noteq> CHR '',''" by simp
      have "set s = set (?p @ (ws @ lit))"
        using s' by (rule arg_cong)
      then have "set (y @ ws @ lit) \<subseteq> set s"
        by (subst (asm) q) auto
      with no_earlier_match_after_text [OF lit y y2 y3, of ws]
      show "suffix_pattern lit (y @ ws @ lit) = None"
        by (rule none)
    qed
    with s' have "sub_suffix lit s = ?p" by simp
    with False \<open>suffix lit s\<close> tk show ?thesis
      by (auto simp: spec_remove_suffix_def)
  qed
qed

section \<open>The contract of normalisation\<close>

text \<open>
  Claim C7 as stated fails: the first substitution removes \<open>united states of america\<close>,
  not \<open>united states\<close>, so an address that ends in \<open>United States\<close> keeps that suffix.
\<close>

theorem normalize_keeps_united_states_counterexample:
  "normalize_address (Some ''1 Main St, United States'') = ''1 main st, united states''
   \<and> suffix ''united states'' (normalize_address (Some ''1 Main St, United States''))"
  by code_simp

text \<open>
  Claim C7, amended. The normal form of a string is the string lower-cased, stripped of
  leading and trailing whitespace and with every whitespace run collapsed to one space, from
  which a trailing \<open>united states of america\<close> and then a trailing \<open>usa\<close> are removed,
  each with the whitespace and one optional comma before it, and which is stripped again. The
  result is in lower case, has only single spaces as whitespace, and has no leading or
  trailing whitespace.
\<close>

theorem normalize_address_contract:
  "normalize_address (Some a) =
     py_strip (spec_remove_suffix ''usa'' (spec_remove_suffix ''united states of america''
       (collapse_ws (py_strip (py_lower a)))))
   \<and> py_lower (normalize_address (Some a)) = normalize_address (Some a)
   \<and> collapse_ws (normalize_address (Some a)) = normalize_address (Some a)
   \<and> py_strip (normalize_address (Some a)) = normalize_address (Some a)"
proof -
  let ?a2 = "collapse_ws (py_strip (py_lower a))"
  let ?a3 = "sub_suffix ''united states of america'' ?a2"
  have n2: "CHR 0x0A \<notin> set ?a2"
    by (rule collapsed_no_newline)
  have e3: "?a3 = spec_remove_suffix ''united states of america'' ?a2"
    by (rule sub_suffix_eq_spec_remove_suffix [OF usa_literals(4-6) n2])
  have "prefix ?a3 ?a2"
    using n2 by (rule sub_suffix_prefix)
  from set_mono_prefix [OF this] n2 have n3: "CHR 0x0A \<notin> set ?a3"
    by blast
  have e4: "sub_suffix ''usa'' ?a3 = spec_remove_suffix ''usa'' ?a3"
    by (rule sub_suffix_eq_spec_remove_suffix [OF usa_literals(1-3) n3])
  have "normalize_address (Some a) =
     py_strip (spec_remove_suffix ''usa'' (spec_remove_suffix ''united states of america'' ?a2))"
    by (simp only: normalize_address_Some) (simp only: e4, simp only: e3)
  with normalize_address_form(1-3) [of a] show ?thesis
    by (intro conjI)
qed

theorem normalize_address_contract_witness:
  "normalize_address (Some ''  1 Main  St , Springfield , USA '') = ''1 main st , springfield''"
proof -
  have "py_strip (spec_remove_suffix ''usa'' (spec_remove_suffix ''united states of america''
       (collapse_ws (py_strip (py_lower ''  1 Main  St , Springfield , USA '')))))
      = ''1 main st , springfield''"
    by code_simp
  with normalize_address_contract [of "''  1 Main  St , Springfield , USA ''", THEN conjunct1] show ?thesis
    by (simp only:)
qed

section \<open>Deduplication of contacts\<close>

text \<open>
  The deduplication keeps the rows in their order (\<open>drop_duplicates_subseq\<close>), leaves no
  two rows with the same key (\<open>drop_duplicates_distinct\<close>) and keeps a row exactly when no
  earlier row has its key (\<open>drop_duplicates_snoc\<close>). On tables whose key parts are free of
  the separator \<open>|\<close> it is the deduplication on the tuple of the four parts
  (\<open>deduplicate_contacts_bar_free\<close>).
\<close>

lemma drop_duplicates_subseq: "subseq (drop_duplicates key seen rows) rows"
  by (induction rows arbitrary: seen) auto

lemma drop_duplicates_keys:
  "key ` set (drop_duplicates key seen rows) = key ` set rows - set seen"
  by (induction rows arbitrary: seen) auto

lemma drop_duplicates_distinct:
  "distinct (map key (drop_duplicates key seen rows))"
proof (induction rows arbitrary: seen)
  case Nil
  show ?case by simp
next
  case (Cons r rs)
  have "key r \<notin> key ` set (drop_duplicates key (key r # seen) rs)"
    by (simp add: drop_duplicates_keys)
  with Cons show ?case by auto
qed

lemma drop_duplicates_seen_set:
  "set s1 = set s2 \<Longrightarrow> drop_duplicates key s1 rows = drop_duplicates key s2 rows"
proof (induction rows arbitrary: s1 s2)
  case Nil
  show ?case by simp
next
  case (Cons r rs)
  from Cons.prems have "set (key r # s1) = set (key r # s2)" by simp
  from Cons.IH [OF this] Cons.IH [OF Cons.prems] Cons.prems show ?case by simp
qed

lemma drop_duplicates_snoc:
  "drop_duplicates key seen (xs @ [x])
     = drop_duplicates key seen xs
       @ (if key x \<in> set seen \<union> key ` set xs then [] else [x])"
proof (induction xs arbitrary: seen)
  case Nil
  show ?case by simp
next
  case (Cons y ys)
  show ?case
  proof (cases "key y \<in> set seen")
    case True
    then have "key x \<in> set seen \<union> key ` set (y # ys) \<longleftrightarrow> key x \<in> set seen \<union> key ` set ys"
      by auto
    with True Cons.IH [of seen] show ?thesis by simp
  next
    case False
    have "key x \<in> set seen \<union> key ` set (y # ys) \<longleftrightarrow> key x \<in> set (key y # seen) \<union> key ` set ys"
      by auto
    with False Cons.IH [of "key y # seen"] show ?thesis by simp
  qed
qed

lemma bar_join_injective:
  "CHR ''|'' \<notin> set a \<Longrightarrow> CHR ''|'' \<notin> set a' \<Longrightarrow> a @ CHR ''|'' # x = a' @ CHR ''|'' # x'
     \<Longrightarrow> a = a' \<and> x = x'"
proof (induction a arbitrary: a')
  case Nil
  then show ?case by (cases a') auto
next
  case (Cons c cs)
  then show ?case by (cases a') auto
qed

lemma dedup_key_eq_iff:
  assumes "bar_free r" "bar_free r'"
  shows "dedup_key r = dedup_key r' \<longleftrightarrow> spec_key r = spec_key r'"
proof
  assume e: "dedup_key r = dedup_key r'"
  let ?f = "key_part (fillna (facility r))" and ?f' = "key_part (fillna (facility r'))"
  let ?a = "key_part (First_Name r)" and ?a' = "key_part (First_Name r')"
  let ?l = "key_part (Last_Name r)" and ?l' = "key_part (Last_Name r')"
  let ?m = "key_part (fillna (emails r))" and ?m' = "key_part (fillna (emails r'))"
  from e have "?f @ CHR ''|'' # (?a @ CHR ''|'' # (?l @ CHR ''|'' # ?m))
      = ?f' @ CHR ''|'' # (?a' @ CHR ''|'' # (?l' @ CHR ''|'' # ?m'))"
    by (simp add: dedup_key_def)
  from bar_join_injective [OF _ _ this] assms
  have 1: "?f = ?f'" and "?a @ CHR ''|'' # (?l @ CHR ''|'' # ?m) = ?a' @ CHR ''|'' # (?l' @ CHR ''|'' # ?m')"
    by (simp_all add: bar_free_def)
  from bar_join_injective [OF _ _ this(2)] assms
  have 2: "?a = ?a'" and "?l @ CHR ''|'' # ?m = ?l' @ CHR ''|'' # ?m'"
    by (simp_all add: bar_free_def)
  from bar_join_injective [OF _ _ this(2)] assms
  have 3: "?l = ?l'" "?m = ?m'"
    by (simp_all add: bar_free_def)
  from 1 2 3 show "spec_key r = spec_key r'"
    by (simp add: spec_key_def)
next
  assume "spec_key r = spec_key r'"
  then show "dedup_key r = dedup_key r'"
    by (simp add: spec_key_def dedup_key_def)
qed

lemma drop_duplicates_same_classes:
  assumes "\<And>r r'. r \<in> set rows \<union> set earlier \<Longrightarrow> r' \<in> set rows \<union> set earlier
             \<Longrightarrow> k1 r = k1 r' \<longleftrightarrow> k2 r = k2 r'"
  shows "drop_duplicates k1 (map k1 earlier) rows = drop_duplicates k2 (map k2 earlier) rows"
  using assms
proof (induction rows arbitrary: earlier)
  case Nil
  show ?case by simp
next
  case (Cons r rs)
  have mem: "k1 r \<in> set (map k1 earlier) \<longleftrightarrow> k2 r \<in> set (map k2 earlier)"
  proof
    assume "k1 r \<in> set (map k1 earlier)"
    then obtain d where d: "d \<in> set earlier" "k1 r = k1 d" by auto
    with Cons.prems [of r d] have "k2 r = k2 d" by simp
    with d show "k2 r \<in> set (map k2 earlier)" by auto
  next
    assume "k2 r \<in> set (map k2 earlier)"
    then obtain d where d: "d \<in> set earlier" "k2 r = k2 d" by auto
    with Cons.prems [of r d] have "k1 r = k1 d" by simp
    with d show "k1 r \<in> set (map k1 earlier)" by auto
  qed
  have a: "drop_duplicates k1 (map k1 earlier) rs = drop_duplicates k2 (map k2 earlier) rs"
    by (rule Cons.IH) (rule Cons.prems, auto)
  have b: "drop_duplicates k1 (map k1 (r # earlier)) rs = drop_duplicates k2 (map k2 (r # earlier)) rs"
    by (rule Cons.IH) (rule Cons.prems, auto)
  from mem a b show ?case by simp
qed

lemma deduplicate_contacts_bar_free:
  assumes "\<forall>r\<in>set rows. bar_free r"
  shows "deduplicate_contacts rows = drop_duplicates spec_key [] rows"
proof -
  have "dedup_key r = dedup_key r' \<longleftrightarrow> spec_key r = spec_key r'"
    if "r \<in> set rows \<union> set []" "r' \<in> set rows \<union> set []" for r r'
    using that assms by (intro dedup_key_eq_iff) auto
  from drop_duplicates_same_classes [of rows "[]" dedup_key spec_key, OF this]
  show ?thesis by (simp add: deduplicate_contacts_def)
qed

text \<open>
  Claim C9 fails where joining the parts by \<open>|\<close> is not injective. The two rows below
  differ in facility and first name, so their composite keys differ, but both join to
  \<open>oak|pine|ann|lee|ann@example.org\<close> and the second row is dropped.
\<close>

theorem dedup_key_separator_collision:
  "deduplicate_contacts
     [\<lparr>facility = Some ''Oak|Pine'', First_Name = ''Ann'', Last_Name = ''Lee'',
       emails = Some ''ann@example.org'', other_columns = 1::nat\<rparr>,
      \<lparr>facility = Some ''Oak'', First_Name = ''Pine|Ann'', Last_Name = ''Lee'',
       emails = Some ''ann@example.org'', other_columns = 2\<rparr>]
    = [\<lparr>facility = Some ''Oak|Pine'', First_Name = ''Ann'', Last_Name = ''Lee'',
        emails = Some ''ann@example.org'', other_columns = 1\<rparr>]
   \<and> spec_key \<lparr>facility = Some ''Oak|Pine'', First_Name = ''Ann'', Last_Name = ''Lee'',
        emails = Some ''ann@example.org'', other_columns = 1::nat\<rparr>
     \<noteq> spec_key \<lparr>facility = Some ''Oak'', First_Name = ''Pine|Ann'', Last_Name = ''Lee'',
        emails = Some ''ann@example.org'', other_columns = 2::nat\<rparr>"
  by code_simp

end
